theory Spec2Isabelle
  imports Complex_Main
begin

section \<open>Billing cycle pattern detection: a shallow embedding\<close>

text \<open>
  This theory embeds the billing cycle detector of the repository
  (\<^verbatim>\<open>analyzeBillingCyclePattern\<close>, \<^verbatim>\<open>projectFutureCycles\<close>,
  \<^verbatim>\<open>assignTransactionToCycle\<close>, \<^verbatim>\<open>adjustForMonthEnd\<close>, the statistics helpers and
  \<^verbatim>\<open>calculateCycleConfidence\<close>) and states its documented properties.

  Conventions of the embedding:
  \<^item> A JavaScript \<^verbatim>\<open>Date\<close> is its time value, an integer number of milliseconds since
    the epoch. Invalid dates (time value NaN) are not modelled. The local time zone is
    taken to be UTC, so local time is the time value and every day has 86400000 ms.
  \<^item> A JavaScript \<^verbatim>\<open>number\<close> that holds a count of days or a day of the month is an
    \<open>int\<close>; one that may hold a fraction (a median, a variance, a confidence, the
    typical cycle length) is a \<open>rat\<close>, with exact arithmetic in place of IEEE doubles.
  \<^item> The functions of the ECMAScript specification and of the date-fns library that the
    detector calls are written out below under their own names.
\<close>

subsection \<open>Time values and the civil calendar (ECMAScript, section "Date Objects")\<close>

type_synonym Date = int

definition msPerDay :: int where
  "msPerDay = 86400000"

text \<open>
  \<^verbatim>\<open>TimeClip\<close>: the time value of a valid \<^verbatim>\<open>Date\<close> is at most 8.64e15 ms away from the epoch
  (100 million days).
\<close>

definition validTime :: "Date \<Rightarrow> bool" where
  "validTime t = (\<bar>t\<bar> \<le> 8640000000000000)"

definition Day :: "Date \<Rightarrow> int" where
  "Day t = t div msPerDay"

definition TimeWithinDay :: "Date \<Rightarrow> int" where
  "TimeWithinDay t = t mod msPerDay"

text \<open>
  Day number (days since 1970-01-01) to proleptic Gregorian year, month (1 to 12) and
  day of the month, and back. Years are counted in 400-year eras of 146097 days that
  start on March 1st, so that a leap day is the last day of its shifted year: an era is
  four centuries of 36524 days (the last one has a day more), a century is 25 groups of
  four years of 1461 days (the last one has a day less), a group is four years of 365
  days (the last one has a day more).
\<close>

definition year_of_era :: "int \<Rightarrow> int \<times> int" where
  "year_of_era doe =
     (let c = min 3 (doe div 36524);
          r1 = doe - c * 36524;
          q = r1 div 1461;
          r2 = r1 - q * 1461;
          k = min 3 (r2 div 365)
      in (100 * c + 4 * q + k, r2 - k * 365))"

definition month_of_year :: "int \<Rightarrow> int \<times> int" where
  "month_of_year doy =
     (let mp = (5 * doy + 2) div 153;
          d = doy - (153 * mp + 2) div 5 + 1;
          m = (if mp < 10 then mp + 3 else mp - 9)
      in (m, d))"

definition civil_from_days :: "int \<Rightarrow> int \<times> int \<times> int" where
  "civil_from_days z =
     (let z' = z + 719468;
          era = z' div 146097;
          doe = z' mod 146097;
          (yoe, doy) = year_of_era doe;
          (m, d) = month_of_year doy;
          y = yoe + era * 400 + (if m \<le> 2 then 1 else 0)
      in (y, m, d))"

definition day_of_era :: "int \<Rightarrow> int \<Rightarrow> int" where
  "day_of_era yoe doy = yoe * 365 + yoe div 4 - yoe div 100 + doy"

definition day_of_year :: "int \<Rightarrow> int \<Rightarrow> int" where
  "day_of_year m d = (153 * ((m + 9) mod 12) + 2) div 5 + d - 1"

definition days_from_civil :: "int \<Rightarrow> int \<Rightarrow> int \<Rightarrow> int" where
  "days_from_civil y m d =
     (let y' = (if m \<le> 2 then y - 1 else y);
          era = y' div 400;
          yoe = y' mod 400
      in era * 146097 + day_of_era yoe (day_of_year m d) - 719468)"

definition isLeapYear :: "int \<Rightarrow> bool" where
  "isLeapYear y = ((y mod 4 = 0 \<and> y mod 100 \<noteq> 0) \<or> y mod 400 = 0)"

text \<open>The number of days of month \<open>m\<close> (1 to 12) of year \<open>y\<close>.\<close>

definition daysInMonth :: "int \<Rightarrow> int \<Rightarrow> int" where
  "daysInMonth y m =
     (if m = 2 then (if isLeapYear y then 29 else 28)
      else if m = 4 \<or> m = 6 \<or> m = 9 \<or> m = 11 then 30
      else 31)"

text \<open>The month after month \<open>m\<close> of year \<open>y\<close>.\<close>

definition nextMonth :: "int \<Rightarrow> int \<Rightarrow> int \<times> int" where
  "nextMonth y m = (if m = 12 then (y + 1, 1) else (y, m + 1))"

definition YearFromTime :: "Date \<Rightarrow> int" where
  "YearFromTime t = fst (civil_from_days (Day t))"

text \<open>\<^verbatim>\<open>MonthFromTime\<close> counts months from 0 (January) to 11 (December).\<close>

definition MonthFromTime :: "Date \<Rightarrow> int" where
  "MonthFromTime t = fst (snd (civil_from_days (Day t))) - 1"

definition DateFromTime :: "Date \<Rightarrow> int" where
  "DateFromTime t = snd (snd (civil_from_days (Day t)))"

text \<open>
  \<^verbatim>\<open>MakeDay(year, month, date)\<close>: the month may lie outside 0 to 11 and the date outside
  the month; both carry over.
\<close>

definition MakeDay :: "int \<Rightarrow> int \<Rightarrow> int \<Rightarrow> int" where
  "MakeDay year month dt =
     (let ym = year + month div 12;
          mn = month mod 12
      in days_from_civil ym (mn + 1) 1 + dt - 1)"

definition MakeDate :: "int \<Rightarrow> int \<Rightarrow> Date" where
  "MakeDate day time = day * msPerDay + time"

text \<open>\<^verbatim>\<open>ToIntegerOrInfinity\<close> on a finite number: truncation towards zero.\<close>

definition ToIntegerOrInfinity :: "rat \<Rightarrow> int" where
  "ToIntegerOrInfinity x = (if x < 0 then \<lceil>x\<rceil> else \<lfloor>x\<rfloor>)"

subsection \<open>Methods of \<^verbatim>\<open>Date.prototype\<close>\<close>

definition getDate :: "Date \<Rightarrow> int" where
  "getDate t = DateFromTime t"

definition getMonth :: "Date \<Rightarrow> int" where
  "getMonth t = MonthFromTime t"

definition getFullYear :: "Date \<Rightarrow> int" where
  "getFullYear t = YearFromTime t"

text \<open>\<^verbatim>\<open>date.setDate(dt)\<close>, returning the new time value.\<close>

definition Date_setDate :: "Date \<Rightarrow> rat \<Rightarrow> Date" where
  "Date_setDate t dt =
     MakeDate (MakeDay (YearFromTime t) (MonthFromTime t) (ToIntegerOrInfinity dt))
       (TimeWithinDay t)"

text \<open>\<^verbatim>\<open>date.setMonth(month, dt)\<close> and \<^verbatim>\<open>date.setFullYear(year, month, dt)\<close>.\<close>

definition Date_setMonth :: "Date \<Rightarrow> int \<Rightarrow> int \<Rightarrow> Date" where
  "Date_setMonth t month dt = MakeDate (MakeDay (YearFromTime t) month dt) (TimeWithinDay t)"

definition Date_setFullYear :: "Date \<Rightarrow> int \<Rightarrow> int \<Rightarrow> int \<Rightarrow> Date" where
  "Date_setFullYear t year month dt = MakeDate (MakeDay year month dt) (TimeWithinDay t)"

subsection \<open>The date-fns functions the detector imports\<close>

text \<open>
  \<^verbatim>\<open>addDays(date, amount)\<close>: \<^verbatim>\<open>if (!amount) return date; date.setDate(date.getDate() + amount)\<close>.
\<close>

definition addDays :: "Date \<Rightarrow> rat \<Rightarrow> Date" where
  "addDays date amount =
     (if amount = 0 then date
      else Date_setDate date (of_int (getDate date) + amount))"

text \<open>\<^verbatim>\<open>setDate(date, dayOfMonth)\<close>.\<close>

definition setDate :: "Date \<Rightarrow> int \<Rightarrow> Date" where
  "setDate date dayOfMonth = Date_setDate date (of_int dayOfMonth)"

text \<open>
  \<^verbatim>\<open>endOfMonth(date)\<close>: \<^verbatim>\<open>date.setFullYear(date.getFullYear(), month + 1, 0)\<close>, then
  \<^verbatim>\<open>date.setHours(23, 59, 59, 999)\<close>.
\<close>

definition endOfMonth :: "Date \<Rightarrow> Date" where
  "endOfMonth date =
     MakeDate (MakeDay (getFullYear date) (getMonth date + 1) 0) (msPerDay - 1)"

text \<open>\<^verbatim>\<open>startOfDay(date)\<close>: \<^verbatim>\<open>date.setHours(0, 0, 0, 0)\<close>.\<close>

definition startOfDay :: "Date \<Rightarrow> Date" where
  "startOfDay date = MakeDate (Day date) 0"

text \<open>
  \<^verbatim>\<open>addMonths(date, amount)\<close>: the day of the month is kept unless the target month is
  shorter, in which case the last day of the target month is taken.
\<close>

definition addMonths :: "Date \<Rightarrow> int \<Rightarrow> Date" where
  "addMonths date amount =
     (if amount = 0 then date
      else
        let dayOfMonth = getDate date;
            endOfDesiredMonth = Date_setMonth date (getMonth date + amount + 1) 0;
            daysInMonth = getDate endOfDesiredMonth
        in if dayOfMonth \<ge> daysInMonth then endOfDesiredMonth
           else Date_setFullYear date (getFullYear endOfDesiredMonth)
                  (getMonth endOfDesiredMonth) dayOfMonth)"

text \<open>
  \<^verbatim>\<open>differenceInDays(laterDate, earlierDate)\<close>: the number of full days between the two
  dates, truncated towards zero.
\<close>

definition differenceInDays :: "Date \<Rightarrow> Date \<Rightarrow> int" where
  "differenceInDays laterDate earlierDate =
     (if earlierDate \<le> laterDate then (laterDate - earlierDate) div msPerDay
      else - ((earlierDate - laterDate) div msPerDay))"

text \<open>A date literal \<^verbatim>\<open>new Date(year, month - 1, day)\<close>: midnight of a civil date.\<close>

definition mkDate :: "int \<Rightarrow> int \<Rightarrow> int \<Rightarrow> Date" where
  "mkDate y m d = MakeDate (MakeDay y (m - 1) d) 0"

subsection \<open>Data model\<close>

record HistoricalCycle =
  statementDate :: Date
  dueDate :: Date
  statementBalance :: "rat option"

record BillingCyclePattern =
  typicalCycleLength :: rat
  statementDayOfMonth :: "int option"
  dueDateOffset :: int
  patternConfidence :: rat

record BillingCycleProjection =
  cycleStartDate :: Date
  cycleEndDate :: Date
  paymentDueDate :: Date
  isProjected :: bool
  confidence :: rat

datatype Quality = High | Medium | Low

text \<open>
  The insight strings are templates filled with numbers; each template is a constructor:
  \<^item> \<open>InsufficientData\<close>: "Insufficient historical data. Need at least 2 billing cycles."
  \<^item> \<open>ConsistentCycle n\<close>: "Consistent billing cycle of n days"
  \<^item> \<open>VariableCycle lo hi\<close>: "Variable billing cycle (lo-hi days)"
  \<^item> \<open>StatementDay d\<close>: "Statements typically close on day d of the month"
  \<^item> \<open>StatementVaries\<close>: "Statement dates vary by month"
  \<^item> \<open>DueAfter n\<close>: "Payment typically due n days after statement"
  \<^item> \<open>DueVaries\<close>: "Due date offset varies between cycles"
\<close>

datatype Insight =
    InsufficientData
  | ConsistentCycle rat
  | VariableCycle int int
  | StatementDay int
  | StatementVaries
  | DueAfter int
  | DueVaries

record PatternAnalysisResult =
  pattern :: BillingCyclePattern
  quality :: Quality
  insights :: "Insight list"

datatype DataSource = Plaid | Inferred | Manual

subsection \<open>Statistical utilities\<close>

text \<open>
  \<^verbatim>\<open>calculateMode\<close> counts in an object used as a table. \<^verbatim>\<open>frequency[num] = ...\<close> updates
  the entry of an existing key in place and appends a new key. \<^verbatim>\<open>Object.entries\<close> lists
  first the keys that are array indices (integers from 0 to 2^32 - 2) in ascending
  order, then all other keys in the order of their creation.
\<close>

fun increment :: "int \<Rightarrow> (int \<times> nat) list \<Rightarrow> (int \<times> nat) list" where
  "increment num [] = [(num, 1)]"
| "increment num ((k, c) # fs) =
     (if k = num then (k, c + 1) # fs else (k, c) # increment num fs)"

definition isArrayIndex :: "int \<Rightarrow> bool" where
  "isArrayIndex k = (0 \<le> k \<and> k < 4294967295)"

definition Object_entries :: "(int \<times> nat) list \<Rightarrow> (int \<times> nat) list" where
  "Object_entries fs =
     sort_key fst (filter (\<lambda>e. isArrayIndex (fst e)) fs)
     @ filter (\<lambda>e. \<not> isArrayIndex (fst e)) fs"

text \<open>The body of the second \<^verbatim>\<open>forEach\<close>, on the pair \<open>(maxFreq, mode)\<close>.\<close>

fun modeStep :: "int \<times> nat \<Rightarrow> nat \<times> int option \<Rightarrow> nat \<times> int option" where
  "modeStep (num, freq) (maxFreq, mode) =
     (if freq > maxFreq then (freq, Some num) else (maxFreq, mode))"

definition calculateMode :: "int list \<Rightarrow> int option" where
  "calculateMode numbers =
     (if numbers = [] then None
      else
        let frequency = fold increment numbers []
        in snd (fold modeStep (Object_entries frequency) (0, None)))"

definition calculateMedian :: "int list \<Rightarrow> rat" where
  "calculateMedian numbers =
     (if numbers = [] then 0
      else
        let sorted = sort numbers;
            mid = length sorted div 2
        in if length sorted mod 2 = 0
           then (of_int (sorted ! (mid - 1)) + of_int (sorted ! mid)) / 2
           else of_int (sorted ! mid))"

text \<open>
  The population variance, computed exactly. In double arithmetic the result can differ
  in its last digits, so that a variance at the threshold 4 of the consistency tests can
  fall on the other side of it; the properties below that involve these tests are stated
  for variances of at most 2.25.
\<close>

definition calculateVariance :: "int list \<Rightarrow> rat" where
  "calculateVariance numbers =
     (if numbers = [] then 0
      else
        let mean = of_int (sum_list numbers) / of_nat (length numbers);
            squaredDiffs = map (\<lambda>num. (of_int num - mean) ^ 2) numbers
        in sum_list squaredDiffs / of_nat (length numbers))"

text \<open>The count that a frequency table holds for a number (0 when the number is no key).\<close>

definition freqOf :: "(int \<times> nat) list \<Rightarrow> int \<Rightarrow> nat" where
  "freqOf fs x = (case map_of fs x of None \<Rightarrow> 0 | Some c \<Rightarrow> c)"

subsection \<open>Month-end adjustment and day consistency\<close>

definition adjustForMonthEnd :: "Date \<Rightarrow> int \<Rightarrow> Date" where
  "adjustForMonthEnd date targetDay =
     (let lastDayOfMonth = getDate (endOfMonth date)
      in if targetDay > lastDayOfMonth then setDate date lastDayOfMonth
         else setDate date targetDay)"

text \<open>
  \<^verbatim>\<open>Math.max(...xs)\<close> and \<^verbatim>\<open>Math.min(...xs)\<close>; the detector only calls them on lists that
  are not empty.
\<close>

definition Math_max :: "int list \<Rightarrow> int" where
  "Math_max xs = fold max (tl xs) (hd xs)"

definition Math_min :: "int list \<Rightarrow> int" where
  "Math_min xs = fold min (tl xs) (hd xs)"

definition checkStatementDayConsistency :: "HistoricalCycle list \<Rightarrow> bool" where
  "checkStatementDayConsistency cycles =
     (let days = map (\<lambda>c. getDate (statementDate c)) cycles
      in if length (remdups days) = 1 then True
         else
           let maxDay = Math_max days;
               minDay = Math_min days
           in if maxDay - minDay \<le> 3 \<and> maxDay \<ge> 28 then True else False)"

subsection \<open>Pattern analysis\<close>

text \<open>The loop that collects the day differences of consecutive statements.\<close>

fun cycleLengthsOf :: "HistoricalCycle list \<Rightarrow> int list" where
  "cycleLengthsOf (a # b # cs) =
     differenceInDays (statementDate b) (statementDate a) # cycleLengthsOf (b # cs)"
| "cycleLengthsOf _ = []"

text \<open>
  The day differences between consecutive statement dates of a history, after sorting by
  statement date: the list \<^verbatim>\<open>cycleLengths\<close> of the analysis.
\<close>

definition dayDifferences :: "HistoricalCycle list \<Rightarrow> int list" where
  "dayDifferences historicalCycles = cycleLengthsOf (sort_key statementDate historicalCycles)"

text \<open>\<^verbatim>\<open>calculateMode(xs) || calculateMedian(xs)\<close>: \<^verbatim>\<open>null\<close> and \<^verbatim>\<open>0\<close> are falsy.\<close>

definition modeOrMedian :: "int list \<Rightarrow> rat" where
  "modeOrMedian xs =
     (case calculateMode xs of
        None \<Rightarrow> calculateMedian xs
      | Some m \<Rightarrow> if m = 0 then calculateMedian xs else of_int m)"

text \<open>\<^verbatim>\<open>Math.round\<close> rounds a half up.\<close>

definition Math_round :: "rat \<Rightarrow> int" where
  "Math_round x = \<lfloor>x + 1 / 2\<rfloor>"

text \<open>
  The three consistency tests of the analysis, on the sorted cycles: the variance of the
  cycle lengths is below 4, the statement days agree up to month-end clipping, the
  variance of the due date offsets is below 4.
\<close>

definition dueDateOffsetsOf :: "HistoricalCycle list \<Rightarrow> int list" where
  "dueDateOffsetsOf sortedCycles =
     map (\<lambda>cycle. differenceInDays (dueDate cycle) (statementDate cycle)) sortedCycles"

definition isConsistentLength :: "HistoricalCycle list \<Rightarrow> bool" where
  "isConsistentLength sortedCycles = (calculateVariance (cycleLengthsOf sortedCycles) < 4)"

definition isConsistentDay :: "HistoricalCycle list \<Rightarrow> bool" where
  "isConsistentDay sortedCycles = checkStatementDayConsistency sortedCycles"

definition isConsistentOffset :: "HistoricalCycle list \<Rightarrow> bool" where
  "isConsistentOffset sortedCycles = (calculateVariance (dueDateOffsetsOf sortedCycles) < 4)"

definition analyzeBillingCyclePattern :: "HistoricalCycle list \<Rightarrow> PatternAnalysisResult" where
  "analyzeBillingCyclePattern historicalCycles =
     (if length historicalCycles < 2 then
        \<lparr> pattern = \<lparr> typicalCycleLength = 30, statementDayOfMonth = None,
                      dueDateOffset = 21, patternConfidence = 3 / 10 \<rparr>,
          quality = Low,
          insights = [InsufficientData] \<rparr>
      else
        let sortedCycles = sort_key statementDate historicalCycles;
            cycleLengths = cycleLengthsOf sortedCycles;
            typicalCycleLength = modeOrMedian cycleLengths;
            insights1 =
              (if isConsistentLength sortedCycles then [ConsistentCycle typicalCycleLength]
               else [VariableCycle (Math_min cycleLengths) (Math_max cycleLengths)]);
            statementDays = map (\<lambda>c. getDate (statementDate c)) sortedCycles;
            mostCommonDay = calculateMode statementDays;
            statementDayOfMonth =
              (if isConsistentDay sortedCycles then mostCommonDay else None);
            insights2 =
              (case mostCommonDay of
                 Some d \<Rightarrow> if isConsistentDay sortedCycles \<and> d \<noteq> 0 then [StatementDay d]
                           else [StatementVaries]
               | None \<Rightarrow> [StatementVaries]);
            dueDateOffset = Math_round (calculateMedian (dueDateOffsetsOf sortedCycles));
            insights3 =
              (if isConsistentOffset sortedCycles then [DueAfter dueDateOffset]
               else [DueVaries]);
            confidence0 = 1 / 2;
            confidence1 =
              (if length historicalCycles \<ge> 6 then confidence0 + 2 / 10
               else if length historicalCycles \<ge> 3 then confidence0 + 1 / 10
               else confidence0);
            confidence2 =
              (if isConsistentLength sortedCycles then confidence1 + 15 / 100 else confidence1);
            confidence3 =
              (if isConsistentDay sortedCycles then confidence2 + 1 / 10 else confidence2);
            confidence4 =
              (if isConsistentOffset sortedCycles then confidence3 + 5 / 100 else confidence3);
            confidence = min confidence4 1;
            quality =
              (if confidence \<ge> 8 / 10 \<and> length historicalCycles \<ge> 6 then High
               else if confidence \<ge> 6 / 10 \<and> length historicalCycles \<ge> 3 then Medium
               else Low)
        in \<lparr> pattern = \<lparr> typicalCycleLength = typicalCycleLength,
                         statementDayOfMonth = statementDayOfMonth,
                         dueDateOffset = dueDateOffset,
                         patternConfidence = confidence \<rparr>,
             quality = quality,
             insights = insights1 @ insights2 @ insights3 \<rparr>)"

subsection \<open>Projection of future cycles\<close>

text \<open>
  The \<^verbatim>\<open>for\<close> loop of \<^verbatim>\<open>projectFutureCycles\<close>, from counter \<open>i\<close> and current statement
  date on; the projections pushed from there on are returned in order.
\<close>

function projectLoop ::
  "BillingCyclePattern \<Rightarrow> int \<Rightarrow> int \<Rightarrow> Date \<Rightarrow> BillingCycleProjection list" where
  "projectLoop pat monthsAhead i currentStatementDate =
     (if i < monthsAhead then
        let nextStatementDate =
              (case statementDayOfMonth pat of
                 Some day \<Rightarrow> adjustForMonthEnd (addMonths currentStatementDate 1) day
               | None \<Rightarrow> addDays currentStatementDate (typicalCycleLength pat));
            cycleStart = addDays currentStatementDate 1;
            due = addDays nextStatementDate (of_int (dueDateOffset pat))
        in \<lparr> cycleStartDate = startOfDay cycleStart,
             cycleEndDate = startOfDay nextStatementDate,
             paymentDueDate = startOfDay due,
             isProjected = True,
             confidence = patternConfidence pat * (1 - of_int i * (5 / 100)) \<rparr>
           # projectLoop pat monthsAhead (i + 1) nextStatementDate
      else [])"
  by pat_completeness auto
termination
  by (relation "measure (\<lambda>(pat, monthsAhead, i, cur). nat (monthsAhead - i))") auto

declare projectLoop.simps [simp del]

definition projectFutureCycles ::
  "HistoricalCycle \<Rightarrow> BillingCyclePattern \<Rightarrow> int \<Rightarrow> BillingCycleProjection list" where
  "projectFutureCycles lastKnownCycle pat monthsAhead =
     projectLoop pat monthsAhead 0 (statementDate lastKnownCycle)"

text \<open>
  The statement date that one iteration of the loop computes from the current one: the
  branch on \<^verbatim>\<open>pattern.statementDayOfMonth !== null\<close>.
\<close>

definition nextStatementDateOf :: "BillingCyclePattern \<Rightarrow> Date \<Rightarrow> Date" where
  "nextStatementDateOf pat currentStatementDate =
     (case statementDayOfMonth pat of
        Some day \<Rightarrow> adjustForMonthEnd (addMonths currentStatementDate 1) day
      | None \<Rightarrow> addDays currentStatementDate (typicalCycleLength pat))"

subsection \<open>Assignment of a transaction to a cycle\<close>

fun assignTransactionToCycle ::
  "Date \<Rightarrow> BillingCycleProjection list \<Rightarrow> BillingCycleProjection option" where
  "assignTransactionToCycle transactionDate [] = None"
| "assignTransactionToCycle transactionDate (cycle # cycles) =
     (if transactionDate \<ge> cycleStartDate cycle \<and> transactionDate \<le> cycleEndDate cycle
      then Some cycle
      else assignTransactionToCycle transactionDate cycles)"

subsection \<open>Confidence of a cycle\<close>

definition calculateCycleConfidence :: "DataSource \<Rightarrow> rat \<Rightarrow> rat \<Rightarrow> rat" where
  "calculateCycleConfidence dataSource dataAgeHours patConfidence =
     (let confidence0 = patConfidence;
          confidence1 =
            (if dataSource = Plaid then confidence0 * 1
             else if dataSource = Inferred then confidence0 * (85 / 100)
             else confidence0 * (7 / 10));
          confidence2 =
            (if dataAgeHours > 48
             then confidence1 * max (1 / 2) (1 - (dataAgeHours - 48) / 720)
             else confidence1)
      in max 0 (min 1 confidence2))"

section \<open>The calendar: both conversions are inverse to each other\<close>

subsection \<open>From a day number to a civil date and back\<close>

lemma year_of_era_bounds:
  assumes "0 \<le> doe" "doe < 146097" "year_of_era doe = (yoe, doy)"
  shows "0 \<le> yoe \<and> yoe < 400 \<and> 0 \<le> doy \<and> doy \<le> 365 \<and> day_of_era yoe doy = doe"
proof -
  define c where "c = min 3 (doe div 36524)"
  define r1 where "r1 = doe - c * 36524"
  define q where "q = r1 div 1461"
  define r2 where "r2 = r1 - q * 1461"
  define k where "k = min 3 (r2 div 365)"
  have c: "0 \<le> c" "c \<le> 3" using assms(1,2) unfolding c_def by linarith+
  have r1: "0 \<le> r1" "r1 \<le> 36524" using assms(1,2) unfolding r1_def c_def by linarith+
  have q: "0 \<le> q" "q \<le> 24" using r1 unfolding q_def by linarith+
  have r2: "0 \<le> r2" "r2 \<le> 1460" using r1 unfolding r2_def q_def by linarith+
  have k: "0 \<le> k" "k \<le> 3" using r2 unfolding k_def by linarith+
  have yoe: "yoe = 100 * c + 4 * q + k" and doy: "doy = r2 - k * 365"
    using assms(3) by (simp_all add: year_of_era_def Let_def c_def r1_def q_def r2_def k_def)
  have doyb: "0 \<le> doy" "doy \<le> 365" using r2 unfolding doy k_def by linarith+
  have y4: "yoe div 4 = 25 * c + q" using c q k unfolding yoe by linarith
  have y100: "yoe div 100 = c" using c q k unfolding yoe by linarith
  have "day_of_era yoe doy = doe"
    unfolding day_of_era_def y4 y100 unfolding yoe doy r2_def r1_def by simp
  moreover have "0 \<le> yoe" "yoe < 400" using c q k unfolding yoe by linarith+
  ultimately show ?thesis using doyb by simp
qed

lemma month_of_year_bounds:
  assumes "0 \<le> doy" "doy \<le> 365" "month_of_year doy = (m, d)"
  shows "1 \<le> m \<and> m \<le> 12 \<and> 1 \<le> d \<and> d \<le> 31 \<and> day_of_year m d = doy"
proof -
  define mp where "mp = (5 * doy + 2) div 153"
  have mpb: "0 \<le> mp" "mp \<le> 11" using assms(1,2) unfolding mp_def by linarith+
  have m: "m = (if mp < 10 then mp + 3 else mp - 9)" and d: "d = doy - (153 * mp + 2) div 5 + 1"
    using assms(3) by (auto simp add: month_of_year_def Let_def mp_def)
  have mp': "(m + 9) mod 12 = mp" using m mpb by auto
  have db: "1 \<le> d" "d \<le> 31" using assms(1,2) unfolding d mp_def by linarith+
  have "day_of_year m d = doy" unfolding day_of_year_def mp' d by simp
  then show ?thesis using m mpb db by auto
qed

lemma days_from_civil_civil_from_days:
  assumes "civil_from_days z = (y, m, d)"
  shows "days_from_civil y m d = z \<and> 1 \<le> m \<and> m \<le> 12"
proof -
  define z' where "z' = z + 719468"
  define era where "era = z' div 146097"
  define doe where "doe = z' mod 146097"
  obtain yoe doy where yd: "year_of_era doe = (yoe, doy)" by force
  obtain m0 d0 where md: "month_of_year doy = (m0, d0)" by force
  have doe: "0 \<le> doe" "doe < 146097" by (simp_all add: doe_def)
  note yb = year_of_era_bounds[OF doe yd]
  from yb have "0 \<le> doy" "doy \<le> 365" by simp_all
  note mb = month_of_year_bounds[OF this md]
  from assms have eq: "m = m0" "d = d0" "y = yoe + era * 400 + (if m0 \<le> 2 then 1 else 0)"
    using yd md by (auto simp add: civil_from_days_def Let_def z'_def[symmetric] era_def[symmetric] doe_def[symmetric])
  have y': "(if m \<le> 2 then y - 1 else y) = era * 400 + yoe" using eq by simp
  have e1: "(era * 400 + yoe) div 400 = era" using yb by simp
  have e2: "(era * 400 + yoe) mod 400 = yoe" using yb by simp
  have "days_from_civil y m d = era * 146097 + doe - 719468"
    unfolding days_from_civil_def Let_def y' e1 e2 using yb mb eq by simp
  also have "\<dots> = z" unfolding era_def doe_def z'_def by simp
  finally show ?thesis using mb eq by simp
qed

subsection \<open>From a civil date to a day number and back\<close>

lemma month_shift:
  fixes mp d :: int
  assumes "1 \<le> d" "d \<le> (153 * (mp + 1) + 2) div 5 - (153 * mp + 2) div 5"
  shows "(5 * ((153 * mp + 2) div 5 + d - 1) + 2) div 153 = mp"
proof -
  define a where "a = (153 * mp + 2) div 5"
  define b where "b = (153 * mp + 155) div 5"
  have a: "5 * a \<le> 153 * mp + 2" "153 * mp + 2 < 5 * a + 5" unfolding a_def by linarith+
  have b: "5 * b \<le> 153 * mp + 155" unfolding b_def by linarith
  have "153 * (mp + 1) + 2 = 153 * mp + 155" by simp
  then have d: "d \<le> b - a" using assms(2) unfolding a_def b_def by simp
  have "(5 * a + 5 * d - 3) div 153 = mp"
  proof (rule int_div_pos_eq)
    show "5 * a + 5 * d - 3 = 153 * mp + (5 * a + 5 * d - 3 - 153 * mp)" by simp
    show "0 \<le> 5 * a + 5 * d - 3 - 153 * mp" using a assms(1) by linarith
    show "5 * a + 5 * d - 3 - 153 * mp < 153" using b d by linarith
  qed
  moreover have "5 * (a + d - 1) + 2 = 5 * a + 5 * d - 3" by simp
  ultimately show ?thesis unfolding a_def by simp
qed

lemma month_case:
  assumes mp: "(m + 9) mod 12 = mp" and m: "m = (if mp < 10 then mp + 3 else mp - 9)"
    and d: "1 \<le> d" "d \<le> (153 * (mp + 1) + 2) div 5 - (153 * mp + 2) div 5"
  shows "month_of_year (day_of_year m d) = (m, d)"
proof -
  have doy: "day_of_year m d = (153 * mp + 2) div 5 + d - 1" by (simp add: day_of_year_def mp)
  show ?thesis unfolding doy unfolding month_of_year_def Let_def month_shift[OF d] using m by simp
qed

lemma month_of_year_day_of_year:
  assumes "1 \<le> m" "m \<le> 12" "1 \<le> d" "d \<le> daysInMonth y m"
  shows "month_of_year (day_of_year m d) = (m, d)"
    and "0 \<le> day_of_year m d" and "day_of_year m d \<le> 365"
    and "day_of_year m d = 365 \<Longrightarrow> isLeapYear y \<and> m = 2"
proof -
  from assms(1,2) have "m = 1 \<or> m = 2 \<or> m = 3 \<or> m = 4 \<or> m = 5 \<or> m = 6
    \<or> m = 7 \<or> m = 8 \<or> m = 9 \<or> m = 10 \<or> m = 11 \<or> m = 12" by presburger
  then have "month_of_year (day_of_year m d) = (m, d) \<and> 0 \<le> day_of_year m d
    \<and> day_of_year m d \<le> 365 \<and> (day_of_year m d = 365 \<longrightarrow> isLeapYear y \<and> m = 2)"
  proof (elim disjE)
    assume m: "m = 1"
    with assms(4) have dl: "d \<le> 31" by (simp add: daysInMonth_def)
    have "month_of_year (day_of_year m d) = (m, d)"
      by (rule month_case[where mp = 10]) (use m assms(3) dl in simp_all)
    moreover have "day_of_year m d = 305 + d" by (simp add: m day_of_year_def)
    ultimately show ?thesis using assms(3) dl m by simp
  next
    assume m: "m = 2"
    with assms(4) have dl: "d \<le> 29" and leap: "d = 29 \<longrightarrow> isLeapYear y"
      by (auto simp: daysInMonth_def split: if_splits)
    have "month_of_year (day_of_year m d) = (m, d)"
      by (rule month_case[where mp = 11]) (use m assms(3) dl in simp_all)
    moreover have "day_of_year m d = 336 + d" by (simp add: m day_of_year_def)
    ultimately show ?thesis using assms(3) dl leap m by simp
  next
    assume m: "m = 3"
    with assms(4) have dl: "d \<le> 31" by (simp add: daysInMonth_def)
    have "month_of_year (day_of_year m d) = (m, d)"
      by (rule month_case[where mp = 0]) (use m assms(3) dl in simp_all)
    moreover have "day_of_year m d = d - 1" by (simp add: m day_of_year_def)
    ultimately show ?thesis using assms(3) dl m by simp
  next
    assume m: "m = 4"
    with assms(4) have dl: "d \<le> 30" by (simp add: daysInMonth_def)
    have "month_of_year (day_of_year m d) = (m, d)"
      by (rule month_case[where mp = 1]) (use m assms(3) dl in simp_all)
    moreover have "day_of_year m d = 30 + d" by (simp add: m day_of_year_def)
    ultimately show ?thesis using assms(3) dl m by simp
  next
    assume m: "m = 5"
    with assms(4) have dl: "d \<le> 31" by (simp add: daysInMonth_def)
    have "month_of_year (day_of_year m d) = (m, d)"
      by (rule month_case[where mp = 2]) (use m assms(3) dl in simp_all)
    moreover have "day_of_year m d = 60 + d" by (simp add: m day_of_year_def)
    ultimately show ?thesis using assms(3) dl m by simp
  next
    assume m: "m = 6"
    with assms(4) have dl: "d \<le> 30" by (simp add: daysInMonth_def)
    have "month_of_year (day_of_year m d) = (m, d)"
      by (rule month_case[where mp = 3]) (use m assms(3) dl in simp_all)
    moreover have "day_of_year m d = 91 + d" by (simp add: m day_of_year_def)
    ultimately show ?thesis using assms(3) dl m by simp
  next
    assume m: "m = 7"
    with assms(4) have dl: "d \<le> 31" by (simp add: daysInMonth_def)
    have "month_of_year (day_of_year m d) = (m, d)"
      by (rule month_case[where mp = 4]) (use m assms(3) dl in simp_all)
    moreover have "day_of_year m d = 121 + d" by (simp add: m day_of_year_def)
    ultimately show ?thesis using assms(3) dl m by simp
  next
    assume m: "m = 8"
    with assms(4) have dl: "d \<le> 31" by (simp add: daysInMonth_def)
    have "month_of_year (day_of_year m d) = (m, d)"
      by (rule month_case[where mp = 5]) (use m assms(3) dl in simp_all)
    moreover have "day_of_year m d = 152 + d" by (simp add: m day_of_year_def)
    ultimately show ?thesis using assms(3) dl m by simp
  next
    assume m: "m = 9"
    with assms(4) have dl: "d \<le> 30" by (simp add: daysInMonth_def)
    have "month_of_year (day_of_year m d) = (m, d)"
      by (rule month_case[where mp = 6]) (use m assms(3) dl in simp_all)
    moreover have "day_of_year m d = 183 + d" by (simp add: m day_of_year_def)
    ultimately show ?thesis using assms(3) dl m by simp
  next
    assume m: "m = 10"
    with assms(4) have dl: "d \<le> 31" by (simp add: daysInMonth_def)
    have "month_of_year (day_of_year m d) = (m, d)"
      by (rule month_case[where mp = 7]) (use m assms(3) dl in simp_all)
    moreover have "day_of_year m d = 213 + d" by (simp add: m day_of_year_def)
    ultimately show ?thesis using assms(3) dl m by simp
  next
    assume m: "m = 11"
    with assms(4) have dl: "d \<le> 30" by (simp add: daysInMonth_def)
    have "month_of_year (day_of_year m d) = (m, d)"
      by (rule month_case[where mp = 8]) (use m assms(3) dl in simp_all)
    moreover have "day_of_year m d = 244 + d" by (simp add: m day_of_year_def)
    ultimately show ?thesis using assms(3) dl m by simp
  next
    assume m: "m = 12"
    with assms(4) have dl: "d \<le> 31" by (simp add: daysInMonth_def)
    have "month_of_year (day_of_year m d) = (m, d)"
      by (rule month_case[where mp = 9]) (use m assms(3) dl in simp_all)
    moreover have "day_of_year m d = 274 + d" by (simp add: m day_of_year_def)
    ultimately show ?thesis using assms(3) dl m by simp
  qed
  then show "month_of_year (day_of_year m d) = (m, d)"
    and "0 \<le> day_of_year m d" and "day_of_year m d \<le> 365"
    and "day_of_year m d = 365 \<Longrightarrow> isLeapYear y \<and> m = 2" by simp_all
qed

lemma year_of_era_compose:
  fixes c q k doy :: int
  assumes c: "0 \<le> c" "c \<le> 3" and q: "0 \<le> q" "q \<le> 24" and k: "0 \<le> k" "k \<le> 3"
    and doy: "0 \<le> doy" "doy \<le> 365"
    and leap: "doy = 365 \<Longrightarrow> k = 3 \<and> (q < 24 \<or> c = 3)"
  defines "doe \<equiv> 36524 * c + 1461 * q + 365 * k + doy"
  shows "year_of_era doe = (100 * c + 4 * q + k, doy)" and "0 \<le> doe" and "doe < 146097"
proof -
  have leap': "doy \<le> 364 \<or> (k = 3 \<and> (q < 24 \<or> c = 3))"
    using leap doy by (cases "doy = 365") simp_all
  define R where "R = 1461 * q + 365 * k + doy"
  have R: "0 \<le> R" "R \<le> 36524" "R = 36524 \<longrightarrow> c = 3"
    using c q k leap' doy unfolding R_def by linarith+
  have "doe = R + c * 36524" unfolding doe_def R_def by simp
  then have "doe div 36524 = R div 36524 + c" by simp
  moreover have "R div 36524 = (if R = 36524 then 1 else 0)" using R by simp
  ultimately have c': "min 3 (doe div 36524) = c" using R c by simp
  have r1: "doe - c * 36524 = 1461 * q + 365 * k + doy" unfolding doe_def by simp
  define S where "S = 365 * k + doy"
  have S: "0 \<le> S" "S \<le> 1460"
    using k leap' doy unfolding S_def by linarith+
  have "1461 * q + 365 * k + doy = S + q * 1461" unfolding S_def by simp
  then have "(1461 * q + 365 * k + doy) div 1461 = S div 1461 + q" by simp
  then have q': "(1461 * q + 365 * k + doy) div 1461 = q" using S by simp
  have r2: "1461 * q + 365 * k + doy - q * 1461 = 365 * k + doy" by simp
  have "365 * k + doy = doy + k * 365" by simp
  then have "(365 * k + doy) div 365 = doy div 365 + k" by simp
  moreover have "doy div 365 = (if doy = 365 then 1 else 0)" using doy by simp
  ultimately have k': "min 3 ((365 * k + doy) div 365) = k" using k leap' by auto
  show "year_of_era doe = (100 * c + 4 * q + k, doy)"
    unfolding year_of_era_def Let_def c' r1 q' r2 k' by simp
  show "0 \<le> doe" "doe < 146097" using c q k leap' doy unfolding doe_def by linarith+
qed

lemma year_decompose:
  fixes yoe :: int
  assumes "0 \<le> yoe" "yoe < 400"
  defines "c \<equiv> yoe div 100" and "q \<equiv> (yoe mod 100) div 4" and "k \<equiv> yoe mod 4"
  shows "0 \<le> c" "c \<le> 3" "0 \<le> q" "q \<le> 24" "0 \<le> k" "k \<le> 3"
    "yoe = 100 * c + 4 * q + k" "day_of_era yoe doy = 36524 * c + 1461 * q + 365 * k + doy"
proof -
  show c: "0 \<le> c" "c \<le> 3" using assms(1,2) unfolding c_def by linarith+
  show q: "0 \<le> q" "q \<le> 24" unfolding q_def by linarith+
  show k: "0 \<le> k" "k \<le> 3" unfolding k_def by linarith+
  have "yoe mod 100 mod 4 = yoe mod 4" by (simp add: mod_mod_cancel)
  then show yoe: "yoe = 100 * c + 4 * q + k" unfolding c_def q_def k_def
    using div_mult_mod_eq[of yoe 100] div_mult_mod_eq[of "yoe mod 100" 4] by linarith
  have y4: "yoe div 4 = 25 * c + q" using c q k yoe by linarith
  show "day_of_era yoe doy = 36524 * c + 1461 * q + 365 * k + doy"
    unfolding day_of_era_def y4 unfolding c_def[symmetric] using yoe by simp
qed

lemma leap_year_of_era:
  assumes "isLeapYear y"
  defines "yoe \<equiv> (y - 1) mod 400"
  shows "yoe mod 4 = 3 \<and> (yoe mod 100 div 4 < 24 \<or> yoe div 100 = 3)"
proof -
  from assms(1) have l: "(y mod 4 = 0 \<and> y mod 100 \<noteq> 0) \<or> y mod 400 = 0"
    by (simp add: isLeapYear_def)
  have a4: "yoe mod 4 = (y - 1) mod 4" unfolding yoe_def by (simp add: mod_mod_cancel)
  have a100: "yoe mod 100 = (y - 1) mod 100" unfolding yoe_def by (simp add: mod_mod_cancel)
  have b4: "y mod 4 = 0 \<Longrightarrow> (y - 1) mod 4 = 3" by presburger
  have b400: "y mod 400 = 0 \<Longrightarrow> y mod 4 = 0" by presburger
  have b100: "y mod 100 \<noteq> 0 \<Longrightarrow> (y - 1) mod 100 \<noteq> 99" by presburger
  have c400: "(y - 1) mod 400 = 399" if "y mod 400 = 0"
    using mod_diff_left_eq[of y 400 1] that by simp
  have k: "yoe mod 4 = 3" using l a4 b4 b400 by metis
  have "yoe mod 100 div 4 < 24 \<or> yoe div 100 = 3"
  proof (cases "y mod 400 = 0")
    case True
    then have "yoe = 399" unfolding yoe_def by (rule c400)
    then show ?thesis by simp
  next
    case False
    with l have "y mod 100 \<noteq> 0" by simp
    then have "yoe mod 100 \<noteq> 99" unfolding a100 by (rule b100)
    moreover have "yoe mod 100 mod 4 = 3" using k by (simp add: mod_mod_cancel)
    ultimately have "yoe mod 100 div 4 < 24" using div_mult_mod_eq[of "yoe mod 100" 4] 
      by linarith
    then show ?thesis by simp
  qed
  with k show ?thesis by simp
qed

lemma civil_from_days_days_from_civil:
  assumes "1 \<le> m" "m \<le> 12" "1 \<le> d" "d \<le> daysInMonth y m"
  shows "civil_from_days (days_from_civil y m d) = (y, m, d)"
proof -
  define y' where "y' = (if m \<le> 2 then y - 1 else y)"
  define era where "era = y' div 400"
  define yoe where "yoe = y' mod 400"
  define doy where "doy = day_of_year m d"
  define doe where "doe = day_of_era yoe doy"
  define c where "c = yoe div 100"
  define q where "q = (yoe mod 100) div 4"
  define k where "k = yoe mod 4"
  note mb = month_of_year_day_of_year[OF assms, folded doy_def]
  have yoeb: "0 \<le> yoe" "yoe < 400" by (simp_all add: yoe_def)
  note yd = year_decompose(1-7)[OF yoeb, folded c_def q_def k_def]
  note de = year_decompose(8)[OF yoeb, where doy = doy, folded c_def q_def k_def doe_def]
  have leap: "k = 3 \<and> (q < 24 \<or> c = 3)" if "doy = 365"
  proof -
    from that mb(4) have "isLeapYear y" "m = 2" by simp_all
    then have "yoe = (y - 1) mod 400" by (simp add: yoe_def y'_def)
    with leap_year_of_era[OF \<open>isLeapYear y\<close>] show ?thesis
      by (simp add: c_def q_def k_def)
  qed
  note yb = year_of_era_compose[OF yd(1-6) mb(2,3) leap, folded yd(7) de]
  have dfc: "days_from_civil y m d = era * 146097 + doe - 719468"
    by (simp add: days_from_civil_def Let_def y'_def era_def yoe_def doy_def doe_def)
  have z1: "(era * 146097 + doe - 719468 + 719468) div 146097 = era" using yb by simp
  have z2: "(era * 146097 + doe - 719468 + 719468) mod 146097 = doe" using yb by simp
  have "y' = era * 400 + yoe" by (simp add: era_def yoe_def)
  then have y: "yoe + era * 400 + (if m \<le> 2 then 1 else 0) = y"
    by (auto simp add: y'_def split: if_splits)
  show ?thesis
    unfolding dfc civil_from_days_def Let_def z1 z2 using yb(1) mb(1) y by simp
qed

subsection \<open>Dates within a month and the last day of a month\<close>

lemma succ_div:
  fixes n k :: int
  assumes "0 < k"
  shows "(n + 1) div k = n div k + (if (n + 1) mod k = 0 then 1 else 0)"
proof (cases "n mod k = k - 1")
  case True
  have "k * (n div k) + n mod k = n" by simp
  then have "k * (n div k) + (k - 1) = n" unfolding True .
  then have "n + 1 = k * (n div k + 1) + 0" by (simp add: algebra_simps)
  then have "(n + 1) div k = n div k + 1" "(n + 1) mod k = 0"
    using assms int_div_pos_eq[of "n + 1" k "n div k + 1" 0] int_mod_pos_eq[of "n + 1" k "n div k + 1" 0]
    by simp_all
  then show ?thesis by simp
next
  case False
  have r: "0 \<le> n mod k" "n mod k < k" using assms by simp_all
  with False have r1: "0 \<le> n mod k + 1" "n mod k + 1 < k" by linarith+
  have "n + 1 = k * (n div k) + (n mod k + 1)" by simp
  then have "(n + 1) div k = n div k" "(n + 1) mod k = n mod k + 1"
    using r1 int_div_pos_eq[of "n + 1" k "n div k" "n mod k + 1"]
      int_mod_pos_eq[of "n + 1" k "n div k" "n mod k + 1"] by simp_all
  then show ?thesis using r by simp
qed

lemma Day_MakeDate: "0 \<le> tm \<Longrightarrow> tm < msPerDay \<Longrightarrow> Day (MakeDate z tm) = z"
  by (simp add: Day_def MakeDate_def msPerDay_def)

lemma TimeWithinDay_MakeDate:
  "0 \<le> tm \<Longrightarrow> tm < msPerDay \<Longrightarrow> TimeWithinDay (MakeDate z tm) = tm"
  by (simp add: TimeWithinDay_def MakeDate_def msPerDay_def)

lemma TimeWithinDay_bounds: "0 \<le> TimeWithinDay t" "TimeWithinDay t < msPerDay"
  by (simp_all add: TimeWithinDay_def msPerDay_def)

lemma MakeDate_Day: "MakeDate (Day t) (TimeWithinDay t) = t"
  by (simp add: MakeDate_def Day_def TimeWithinDay_def)

lemma days_from_civil_day: "days_from_civil y m d = days_from_civil y m 1 + d - 1"
  by (simp add: days_from_civil_def day_of_era_def day_of_year_def Let_def)

lemma MakeDay_same_month:
  assumes "1 \<le> m" "m \<le> 12"
  shows "MakeDay y (m - 1) dt = days_from_civil y m dt"
proof -
  have "(m - 1) div 12 = 0" "(m - 1) mod 12 = m - 1" using assms by simp_all
  then show ?thesis
    using days_from_civil_day[of y m dt] by (simp add: MakeDay_def Let_def)
qed


lemma days_from_civil_next_month:
  assumes "1 \<le> m" "m \<le> 11"
  shows "days_from_civil y (m + 1) 1 = days_from_civil y m 1 + daysInMonth y m"
proof (cases "m = 2")
  case False
  with assms have "m = 1 \<or> m = 3 \<or> m = 4 \<or> m = 5 \<or> m = 6
    \<or> m = 7 \<or> m = 8 \<or> m = 9 \<or> m = 10 \<or> m = 11" by presburger
  then show ?thesis
    by (elim disjE)
      (simp_all add: days_from_civil_def day_of_era_def day_of_year_def Let_def daysInMonth_def)
next
  case True
  define Y where "Y = y - 1"
  define e where "e = Y div 400"
  define r where "r = Y mod 400"
  have r: "0 \<le> r" "r < 400" by (simp_all add: r_def)
  have Y: "Y = 400 * e + r" by (simp add: e_def r_def)
  have y: "y = 400 * e + r + 1" using Y by (simp add: Y_def)
  have lhs: "days_from_civil y 3 1 = (y div 400) * 146097 + day_of_era (y mod 400) 0 - 719468"
    by (simp add: days_from_civil_def day_of_year_def Let_def)
  have rhs: "days_from_civil y 2 1 = e * 146097 + day_of_era r 337 - 719468"
    by (simp add: days_from_civil_def day_of_year_def Let_def e_def r_def Y_def)
  show ?thesis
  proof (cases "r = 399")
    case True
    then have y4: "y = 400 * (e + 1) + 0" using y by simp
    have "y div 400 = e + 1" "y mod 400 = 0"
      using int_div_pos_eq[OF y4] int_mod_pos_eq[OF y4] by simp_all
    moreover have "isLeapYear y" using \<open>y mod 400 = 0\<close> by (simp add: isLeapYear_def)
    ultimately show ?thesis unfolding \<open>m = 2\<close> using lhs rhs True
      by (simp add: day_of_era_def daysInMonth_def)
  next
    case False
    with r have r1: "0 \<le> r + 1" "r + 1 < 400" by simp_all
    have y4: "y = 400 * e + (r + 1)" using y by simp
    have ydm: "y div 400 = e" "y mod 400 = r + 1"
      using int_div_pos_eq[OF y4 r1] int_mod_pos_eq[OF y4 r1] by simp_all
    have "y mod 4 = (y mod 400) mod 4" "y mod 100 = (y mod 400) mod 100"
      by (simp_all add: mod_mod_cancel)
    then have leap: "isLeapYear y \<longleftrightarrow> (r + 1) mod 4 = 0 \<and> (r + 1) mod 100 \<noteq> 0"
      using ydm r by (auto simp add: isLeapYear_def)
    have "4 dvd (r + 1)" if "(r + 1) mod 100 = 0"
    proof -
      from that have "100 dvd (r + 1)" by (simp add: dvd_eq_mod_eq_0)
      then show ?thesis by (rule dvd_trans[rotated]) simp
    qed
    then have imp: "(r + 1) mod 100 = 0 \<Longrightarrow> (r + 1) mod 4 = 0" by (simp add: dvd_eq_mod_eq_0)
    define i4 :: int where "i4 = (if (r + 1) mod 4 = 0 then 1 else 0)"
    define i100 :: int where "i100 = (if (r + 1) mod 100 = 0 then 1 else 0)"
    have d4: "(r + 1) div 4 = r div 4 + i4" using succ_div[of 4 r] by (simp add: i4_def)
    have d100: "(r + 1) div 100 = r div 100 + i100" using succ_div[of 100 r] by (simp add: i100_def)
    have "day_of_era (r + 1) 0 = day_of_era r 337 + (28 + i4 - i100)"
      unfolding day_of_era_def d4 d100 by simp
    moreover have "daysInMonth y 2 = 28 + i4 - i100"
      unfolding daysInMonth_def leap i4_def i100_def using imp by simp
    ultimately show ?thesis unfolding \<open>m = 2\<close> using lhs rhs ydm by simp
  qed
qed


lemma days_from_civil_next_year:
  "days_from_civil (y + 1) 1 1 = days_from_civil y 12 1 + daysInMonth y 12"
  by (simp add: days_from_civil_def day_of_era_def day_of_year_def Let_def daysInMonth_def)

lemma MakeDay_next_month:
  assumes "1 \<le> m" "m \<le> 12"
  shows "MakeDay y m 0 = days_from_civil y m (daysInMonth y m)"
proof (cases "m = 12")
  case True
  then show ?thesis
    using days_from_civil_next_year[of y] days_from_civil_day[of y 12 "daysInMonth y 12"]
    by (simp add: MakeDay_def Let_def)
next
  case False
  with assms have m: "1 \<le> m" "m \<le> 11" by simp_all
  then have "m div 12 = 0" "m mod 12 = m" by simp_all
  then show ?thesis
    using days_from_civil_next_month[OF m, of y] days_from_civil_day[of y m "daysInMonth y m"]
    by (simp add: MakeDay_def Let_def)
qed

lemma daysInMonth_bounds: "28 \<le> daysInMonth y m" "daysInMonth y m \<le> 31"
  by (simp_all add: daysInMonth_def)

lemma civil_Date:
  obtains y m d where "civil_from_days (Day t) = (y, m, d)" "1 \<le> m" "m \<le> 12"
    "getFullYear t = y" "getMonth t = m - 1" "getDate t = d" "days_from_civil y m d = Day t"
proof -
  obtain y m d where c: "civil_from_days (Day t) = (y, m, d)" by (metis prod_cases3)
  from days_from_civil_civil_from_days[OF c] c show ?thesis
    by (intro that[of y m d])
      (simp_all add: getFullYear_def getMonth_def getDate_def YearFromTime_def
        MonthFromTime_def DateFromTime_def)
qed

lemma getDate_endOfMonth:
  "getDate (endOfMonth t) = daysInMonth (getFullYear t) (getMonth t + 1)"
proof -
  obtain y m d where c: "civil_from_days (Day t) = (y, m, d)" "1 \<le> m" "m \<le> 12"
    "getFullYear t = y" "getMonth t = m - 1" by (rule civil_Date)
  have "Day (endOfMonth t) = MakeDay y m 0"
    unfolding endOfMonth_def c by (simp add: Day_def MakeDate_def msPerDay_def)
  also have "\<dots> = days_from_civil y m (daysInMonth y m)" by (rule MakeDay_next_month[OF c(2,3)])
  finally have "Day (endOfMonth t) = days_from_civil y m (daysInMonth y m)" .
  moreover have "1 \<le> daysInMonth y m" using daysInMonth_bounds(1)[of y m] by simp
  then have "civil_from_days (days_from_civil y m (daysInMonth y m)) = (y, m, daysInMonth y m)"
    by (intro civil_from_days_days_from_civil c) simp_all
  ultimately have "civil_from_days (Day (endOfMonth t)) = (y, m, daysInMonth y m)" by simp
  then show ?thesis by (simp add: getDate_def DateFromTime_def c)
qed

lemma setDate_in_month:
  assumes "1 \<le> dt" "dt \<le> daysInMonth (getFullYear t) (getMonth t + 1)"
  shows "getFullYear (setDate t dt) = getFullYear t"
    and "getMonth (setDate t dt) = getMonth t"
    and "getDate (setDate t dt) = dt"
    and "TimeWithinDay (setDate t dt) = TimeWithinDay t"
proof -
  obtain y m d where c: "civil_from_days (Day t) = (y, m, d)" "1 \<le> m" "m \<le> 12"
    "getFullYear t = y" "getMonth t = m - 1" by (rule civil_Date)
  have s: "setDate t dt = MakeDate (days_from_civil y m dt) (TimeWithinDay t)"
    using c MakeDay_same_month[OF c(2,3), of y dt]
    by (simp add: setDate_def Date_setDate_def ToIntegerOrInfinity_def
        getFullYear_def getMonth_def)
  have "Day (setDate t dt) = days_from_civil y m dt"
    unfolding s by (rule Day_MakeDate[OF TimeWithinDay_bounds])
  moreover have "civil_from_days (days_from_civil y m dt) = (y, m, dt)"
    using assms c by (intro civil_from_days_days_from_civil) simp_all
  ultimately have "civil_from_days (Day (setDate t dt)) = (y, m, dt)" by simp
  then show "getFullYear (setDate t dt) = getFullYear t"
    and "getMonth (setDate t dt) = getMonth t"
    and "getDate (setDate t dt) = dt"
    by (simp_all add: getFullYear_def getMonth_def getDate_def YearFromTime_def
        MonthFromTime_def DateFromTime_def c)
  show "TimeWithinDay (setDate t dt) = TimeWithinDay t"
    unfolding s by (rule TimeWithinDay_MakeDate[OF TimeWithinDay_bounds])
qed

text \<open>Unfolding rules that evaluate the calendar on concrete dates.\<close>

lemmas calendar_eval =
  mkDate_def MakeDate_def MakeDay_def days_from_civil_def day_of_era_def day_of_year_def
  civil_from_days_def year_of_era_def month_of_year_def Day_def TimeWithinDay_def msPerDay_def
  getDate_def getMonth_def getFullYear_def YearFromTime_def MonthFromTime_def DateFromTime_def
  daysInMonth_def isLeapYear_def Let_def

subsection \<open>Adding days\<close>

lemma civil_from_days_day:
  assumes "civil_from_days z = (y, m, d)"
  shows "1 \<le> d \<and> d \<le> 31"
proof -
  define doe where "doe = (z + 719468) mod 146097"
  obtain yoe doy where yd: "year_of_era doe = (yoe, doy)" by force
  obtain m0 d0 where md: "month_of_year doy = (m0, d0)" by force
  have doe: "0 \<le> doe" "doe < 146097" by (simp_all add: doe_def)
  from year_of_era_bounds[OF doe yd] have "0 \<le> doy" "doy \<le> 365" by simp_all
  note mb = month_of_year_bounds[OF this md]
  from assms have "d = d0"
    using yd md by (auto simp add: civil_from_days_def Let_def doe_def[symmetric])
  with mb show ?thesis by simp
qed

lemma getDate_pos: "1 \<le> getDate t"
proof -
  obtain y m d where "civil_from_days (Day t) = (y, m, d)" by (metis prod_cases3)
  from civil_from_days_day[OF this] this show ?thesis
    by (simp add: getDate_def DateFromTime_def)
qed

lemma Date_setDate_int: "Date_setDate t (of_int k) = t + (k - getDate t) * msPerDay"
proof -
  obtain y m d where c: "civil_from_days (Day t) = (y, m, d)" "1 \<le> m" "m \<le> 12"
    "getFullYear t = y" "getMonth t = m - 1" "getDate t = d" "days_from_civil y m d = Day t"
    by (rule civil_Date)
  have "MakeDay y (m - 1) k = days_from_civil y m k" by (rule MakeDay_same_month[OF c(2,3)])
  also have "\<dots> = Day t + (k - d)"
    using days_from_civil_day[of y m k] days_from_civil_day[of y m d] c(7) by simp
  finally have "Date_setDate t (of_int k) = MakeDate (Day t + (k - d)) (TimeWithinDay t)"
    using c(4,5) by (simp add: Date_setDate_def ToIntegerOrInfinity_def getFullYear_def getMonth_def)
  also have "\<dots> = MakeDate (Day t) (TimeWithinDay t) + (k - d) * msPerDay"
    by (simp add: MakeDate_def algebra_simps)
  finally show ?thesis by (simp add: MakeDate_Day c(6))
qed

lemma addDays_int: "addDays t (of_int n) = t + n * msPerDay"
proof (cases "n = 0")
  case True
  then show ?thesis by (simp add: addDays_def)
next
  case False
  have e: "of_int (getDate t) + (of_int n :: rat) = of_int (getDate t + n)" by simp
  have "addDays t (of_int n) = Date_setDate t (of_int (getDate t) + of_int n)"
    using False by (simp add: addDays_def)
  also have "\<dots> = Date_setDate t (of_int (getDate t + n))" by (simp only: e)
  also have "\<dots> = t + (getDate t + n - getDate t) * msPerDay" by (rule Date_setDate_int)
  finally show ?thesis by simp
qed

lemma addDays_nonneg:
  assumes "0 \<le> a"
  shows "addDays t a = t + \<lfloor>a\<rfloor> * msPerDay"
proof (cases "a = 0")
  case True
  then show ?thesis by (simp add: addDays_def)
next
  case False
  have "0 \<le> of_int (getDate t) + a" using getDate_pos[of t] assms by simp
  then have "ToIntegerOrInfinity (of_int (getDate t) + a) = getDate t + \<lfloor>a\<rfloor>"
    by (simp add: ToIntegerOrInfinity_def)
  moreover have "ToIntegerOrInfinity (of_int (getDate t + \<lfloor>a\<rfloor>)) = getDate t + \<lfloor>a\<rfloor>"
    by (simp add: ToIntegerOrInfinity_def)
  ultimately have "Date_setDate t (of_int (getDate t) + a)
      = Date_setDate t (of_int (getDate t + \<lfloor>a\<rfloor>))"
    by (simp only: Date_setDate_def)
  also have "\<dots> = t + (getDate t + \<lfloor>a\<rfloor> - getDate t) * msPerDay" by (rule Date_setDate_int)
  finally show ?thesis using False by (simp add: addDays_def)
qed

lemma addDays_one: "addDays t 1 = t + msPerDay"
  using addDays_int[of t 1] by simp

lemma startOfDay_add: "startOfDay (t + n * msPerDay) = startOfDay t + n * msPerDay"
  by (simp add: startOfDay_def MakeDate_def Day_def msPerDay_def algebra_simps)

lemma startOfDay_add_one: "startOfDay (t + msPerDay) = startOfDay t + msPerDay"
  using startOfDay_add[of t 1] by simp

lemma msPerDay_pos: "0 < msPerDay"
  by (simp add: msPerDay_def)

section \<open>The projection loop\<close>

lemma projectLoop_stop: "\<not> i < n \<Longrightarrow> projectLoop pat n i cur = []"
  by (subst projectLoop.simps) simp

lemma projectLoop_step:
  assumes "i < n"
  shows "projectLoop pat n i cur =
     \<lparr> cycleStartDate = startOfDay cur + msPerDay,
       cycleEndDate = startOfDay (nextStatementDateOf pat cur),
       paymentDueDate = startOfDay (nextStatementDateOf pat cur) + dueDateOffset pat * msPerDay,
       isProjected = True,
       confidence = patternConfidence pat * (1 - of_int i * (5 / 100)) \<rparr>
     # projectLoop pat n (i + 1) (nextStatementDateOf pat cur)"
proof -
  have "startOfDay (addDays cur 1) = startOfDay cur + msPerDay"
    by (simp add: addDays_one startOfDay_add_one)
  moreover have "startOfDay (addDays (nextStatementDateOf pat cur) (of_int (dueDateOffset pat)))
      = startOfDay (nextStatementDateOf pat cur) + dueDateOffset pat * msPerDay"
    by (simp only: addDays_int startOfDay_add)
  ultimately show ?thesis
    using assms by (subst projectLoop.simps) (simp add: nextStatementDateOf_def Let_def)
qed

lemma projectLoop_length: "length (projectLoop pat n i cur) = nat (n - i)"
proof (induction "nat (n - i)" arbitrary: i cur)
  case 0
  then show ?case by (simp add: projectLoop_stop)
next
  case (Suc j)
  then have "i < n" "j = nat (n - (i + 1))" by linarith+
  with Suc(1)[of "i + 1"] Suc(2) show ?case by (simp add: projectLoop_step)
qed

lemma projectLoop_due_after_end:
  assumes "1 \<le> dueDateOffset pat"
  shows "\<forall>pr \<in> set (projectLoop pat n i cur). cycleEndDate pr < paymentDueDate pr"
proof (induction "nat (n - i)" arbitrary: i cur)
  case 0
  then show ?case by (simp add: projectLoop_stop)
next
  case (Suc j)
  then have i: "i < n" "j = nat (n - (i + 1))" by linarith+
  have "0 < dueDateOffset pat * msPerDay" using assms msPerDay_pos by simp
  with Suc(1)[OF i(2)] show ?case by (simp add: projectLoop_step[OF i(1)])
qed

lemma projectLoop_chain:
  "Suc k < length (projectLoop pat n i cur) \<Longrightarrow>
   cycleStartDate (projectLoop pat n i cur ! Suc k)
     = cycleEndDate (projectLoop pat n i cur ! k) + msPerDay"
proof (induction k arbitrary: i cur)
  case 0
  then have i: "i < n" by (cases "i < n") (simp_all add: projectLoop_stop)
  let ?next = "nextStatementDateOf pat cur"
  from 0 have "0 < length (projectLoop pat n (i + 1) ?next)"
    by (simp add: projectLoop_step[OF i])
  then have "i + 1 < n" by (cases "i + 1 < n") (simp_all add: projectLoop_stop)
  then show ?case by (simp add: projectLoop_step[OF i] projectLoop_step[of "i + 1" n])
next
  case (Suc k)
  then have i: "i < n" by (cases "i < n") (simp_all add: projectLoop_stop)
  from Suc.prems have "Suc k < length (projectLoop pat n (i + 1) (nextStatementDateOf pat cur))"
    by (simp add: projectLoop_step[OF i])
  from Suc.IH[OF this] show ?case by (simp add: projectLoop_step[OF i])
qed

lemma projectLoop_fixed_length_start_before_end:
  assumes "statementDayOfMonth pat = None" "2 \<le> typicalCycleLength pat"
  shows "\<forall>pr \<in> set (projectLoop pat n i cur). cycleStartDate pr < cycleEndDate pr"
proof (induction "nat (n - i)" arbitrary: i cur)
  case 0
  then show ?case by (simp add: projectLoop_stop)
next
  case (Suc j)
  then have i: "i < n" "j = nat (n - (i + 1))" by linarith+
  have "2 \<le> \<lfloor>typicalCycleLength pat\<rfloor>" using assms(2) by (simp add: le_floor_iff)
  then have "msPerDay < \<lfloor>typicalCycleLength pat\<rfloor> * msPerDay"
    using msPerDay_pos by (simp add: msPerDay_def)
  moreover have "nextStatementDateOf pat cur = cur + \<lfloor>typicalCycleLength pat\<rfloor> * msPerDay"
    using assms by (simp add: nextStatementDateOf_def addDays_nonneg)
  ultimately have "startOfDay cur + msPerDay < startOfDay (nextStatementDateOf pat cur)"
    by (simp add: startOfDay_add)
  with Suc(1)[OF i(2)] show ?case by (simp add: projectLoop_step[OF i(1)])
qed

lemma projectLoop_fixed_length_nth:
  assumes "statementDayOfMonth pat = None" "typicalCycleLength pat = of_int L"
  shows "k < nat (n - i) \<Longrightarrow>
     projectLoop pat n i cur ! k =
       \<lparr> cycleStartDate = startOfDay cur + (int k * L + 1) * msPerDay,
         cycleEndDate = startOfDay cur + (int k + 1) * L * msPerDay,
         paymentDueDate = startOfDay cur + (int k + 1) * L * msPerDay + dueDateOffset pat * msPerDay,
         isProjected = True,
         confidence = patternConfidence pat * (1 - of_int (i + int k) * (5 / 100)) \<rparr>"
proof (induction k arbitrary: i cur)
  case 0
  then have i: "i < n" by linarith
  have "nextStatementDateOf pat cur = cur + L * msPerDay"
    using assms by (simp add: nextStatementDateOf_def addDays_int)
  then show ?case by (simp add: projectLoop_step[OF i] startOfDay_add)
next
  case (Suc k)
  then have i: "i < n" and k: "k < nat (n - (i + 1))" by linarith+
  have nx: "nextStatementDateOf pat cur = cur + L * msPerDay"
    using assms by (simp add: nextStatementDateOf_def addDays_int)
  show ?case
    using Suc.IH[OF k, of "cur + L * msPerDay"]
    by (simp add: projectLoop_step[OF i] nx startOfDay_add algebra_simps)
qed

section \<open>The path with a statement day of the month\<close>

lemma nextMonth_range:
  assumes "1 \<le> m" "m \<le> 12" "nextMonth y m = (y', m')"
  shows "1 \<le> m'" "m' \<le> 12" "m' \<noteq> m"
  using assms by (auto simp: nextMonth_def split: if_splits)

lemma days_from_civil_nextMonth:
  assumes "1 \<le> m" "m \<le> 12" "nextMonth y m = (y', m')"
  shows "days_from_civil y' m' 1 = days_from_civil y m 1 + daysInMonth y m"
proof (cases "m = 12")
  case True
  with assms(3) have "y' = y + 1" "m' = 1" by (simp_all add: nextMonth_def)
  then show ?thesis using days_from_civil_next_year[of y] True by simp
next
  case False
  with assms have "y' = y" "m' = m + 1" "m \<le> 11" by (simp_all add: nextMonth_def)
  then show ?thesis using days_from_civil_next_month[OF assms(1), of y] by simp
qed

lemma civil_from_days_valid:
  assumes c: "civil_from_days z = (y, m, d)"
  shows "d \<le> daysInMonth y m"
proof (rule ccontr)
  assume "\<not> d \<le> daysInMonth y m"
  then have gt: "daysInMonth y m < d" by simp
  from days_from_civil_civil_from_days[OF c] have z: "days_from_civil y m d = z"
    and m: "1 \<le> m" "m \<le> 12" by simp_all
  from civil_from_days_day[OF c] have d31: "d \<le> 31" by simp
  obtain y' m' where nm: "nextMonth y m = (y', m')" by force
  note r = nextMonth_range[OF m nm]
  define e where "e = d - daysInMonth y m"
  have e: "1 \<le> e" "e \<le> 3" using gt d31 daysInMonth_bounds(1)[of y m] by (simp_all add: e_def)
  have "days_from_civil y' m' e = days_from_civil y' m' 1 + e - 1"
    by (rule days_from_civil_day)
  also have "\<dots> = days_from_civil y m 1 + d - 1"
    using days_from_civil_nextMonth[OF m nm] by (simp add: e_def)
  also have "\<dots> = z" using days_from_civil_day[of y m d] z by simp
  finally have "civil_from_days z = civil_from_days (days_from_civil y' m' e)" by simp
  also have "\<dots> = (y', m', e)"
    using e daysInMonth_bounds(1)[of y' m'] by (intro civil_from_days_days_from_civil r) simp_all
  finally show False using c r(3) by simp
qed

lemma civil_of_day:
  assumes "1 \<le> m" "m \<le> 12" "1 \<le> d" "d \<le> daysInMonth y m"
    and "Day t = days_from_civil y m d"
  shows "getFullYear t = y" "getMonth t = m - 1" "getDate t = d"
proof -
  have "civil_from_days (Day t) = (y, m, d)"
    unfolding assms(5) by (rule civil_from_days_days_from_civil[OF assms(1-4)])
  then show "getFullYear t = y" "getMonth t = m - 1" "getDate t = d"
    by (simp_all add: getFullYear_def getMonth_def getDate_def YearFromTime_def
        MonthFromTime_def DateFromTime_def)
qed

lemma MakeDay_end_of_next_month:
  assumes "1 \<le> m" "m \<le> 12" "nextMonth y m = (y', m')"
  shows "MakeDay y (m + 1) 0 = days_from_civil y' m' (daysInMonth y' m')"
proof (cases "m = 12")
  case True
  with assms(3) have n: "y' = y + 1" "m' = 1" by (simp_all add: nextMonth_def)
  have "MakeDay y 13 0 = MakeDay (y + 1) 1 0" by (simp add: MakeDay_def Let_def)
  also have "\<dots> = days_from_civil (y + 1) 1 (daysInMonth (y + 1) 1)"
    by (rule MakeDay_next_month) simp_all
  finally show ?thesis using True n by simp
next
  case False
  with assms have n: "y' = y" "m' = m + 1" "1 \<le> m + 1" "m + 1 \<le> 12"
    by (simp_all add: nextMonth_def)
  show ?thesis unfolding n(1,2) by (rule MakeDay_next_month[OF n(3,4)])
qed

text \<open>One month later: the next month, with the day clipped to its length.\<close>

lemma addMonths_one:
  assumes c: "civil_from_days (Day t) = (y, m, d)" and nm: "nextMonth y m = (y', m')"
  shows "Day (addMonths t 1) = days_from_civil y' m' (min d (daysInMonth y' m'))"
proof -
  from days_from_civil_civil_from_days[OF c] have m: "1 \<le> m" "m \<le> 12" by simp_all
  note r = nextMonth_range[OF m nm]
  have g: "getFullYear t = y" "getMonth t = m - 1" "getDate t = d"
    using c by (simp_all add: getFullYear_def getMonth_def getDate_def YearFromTime_def
        MonthFromTime_def DateFromTime_def)
  from civil_from_days_day[OF c] have d1: "1 \<le> d" by simp
  define L where "L = daysInMonth y' m'"
  have L: "1 \<le> L" using daysInMonth_bounds(1)[of y' m'] by (simp add: L_def)
  define e where "e = Date_setMonth t (m + 1) 0"
  have e: "e = MakeDate (days_from_civil y' m' L) (TimeWithinDay t)"
    using MakeDay_end_of_next_month[OF m nm] g
    by (simp add: e_def Date_setMonth_def getFullYear_def L_def)
  have am: "addMonths t 1
      = (if d \<ge> getDate e then e else Date_setFullYear t (getFullYear e) (getMonth e) d)"
    by (simp add: addMonths_def Let_def g e_def)
  have De: "Day e = days_from_civil y' m' L"
    unfolding e by (rule Day_MakeDate[OF TimeWithinDay_bounds])
  have ge: "getFullYear e = y'" "getMonth e = m' - 1" "getDate e = L"
    using civil_of_day[OF r(1,2) L _ De] by (simp_all add: L_def)
  show ?thesis
  proof (cases "d \<ge> L")
    case True
    then have "addMonths t 1 = e" by (simp add: am ge)
    with De True show ?thesis by (simp add: L_def[symmetric] min_def)
  next
    case False
    then have "addMonths t 1 = Date_setFullYear t y' (m' - 1) d"
      by (simp add: am ge)
    also have "\<dots> = MakeDate (days_from_civil y' m' d) (TimeWithinDay t)"
      using MakeDay_same_month[OF r(1,2), of y' d] by (simp add: Date_setFullYear_def)
    finally have "Day (addMonths t 1) = days_from_civil y' m' d"
      by (simp add: Day_MakeDate[OF TimeWithinDay_bounds])
    with False show ?thesis by (simp add: L_def[symmetric] min_def)
  qed
qed

lemma adjustForMonthEnd_setDate:
  "adjustForMonthEnd date targetDay
     = setDate date (min targetDay (daysInMonth (getFullYear date) (getMonth date + 1)))"
  by (simp add: adjustForMonthEnd_def getDate_endOfMonth Let_def min_def)

text \<open>
  The statement date of the next cycle on the path with a statement day of the month.
\<close>

lemma nextStatementDateOf_day:
  assumes p: "statementDayOfMonth pat = Some T" and T: "1 \<le> T"
    and c: "civil_from_days (Day cur) = (y, m, d)" and nm: "nextMonth y m = (y', m')"
  shows "Day (nextStatementDateOf pat cur)
           = Day cur + (daysInMonth y m - d) + min T (daysInMonth y' m')"
    and "civil_from_days (Day (nextStatementDateOf pat cur))
           = (y', m', min T (daysInMonth y' m'))"
proof -
  from days_from_civil_civil_from_days[OF c] have m: "1 \<le> m" "m \<le> 12"
    and z: "days_from_civil y m d = Day cur" by simp_all
  note r = nextMonth_range[OF m nm]
  from civil_from_days_day[OF c] have d1: "1 \<le> d" by simp
  define L where "L = daysInMonth y' m'"
  have L: "1 \<le> L" using daysInMonth_bounds(1)[of y' m'] by (simp add: L_def)
  define a where "a = addMonths cur 1"
  have Da: "Day a = days_from_civil y' m' (min d L)"
    unfolding a_def L_def by (rule addMonths_one[OF c nm])
  have ga: "getFullYear a = y'" "getMonth a = m' - 1"
    using civil_of_day[OF r(1,2) _ _ Da] d1 L by (simp_all add: L_def)
  define k where "k = min T L"
  have k: "1 \<le> k" "k \<le> daysInMonth (getFullYear a) (getMonth a + 1)"
    using T L by (simp_all add: k_def ga L_def)
  have n: "nextStatementDateOf pat cur = setDate a k"
    by (simp add: nextStatementDateOf_def p a_def adjustForMonthEnd_setDate k_def L_def
        ga[unfolded a_def])
  have "civil_from_days (Day (setDate a k)) = (getFullYear (setDate a k),
      getMonth (setDate a k) + 1, getDate (setDate a k))"
    by (simp add: getFullYear_def getMonth_def getDate_def YearFromTime_def
        MonthFromTime_def DateFromTime_def)
  also have "\<dots> = (y', m', k)" using setDate_in_month[OF k] ga by simp
  finally show cv: "civil_from_days (Day (nextStatementDateOf pat cur))
      = (y', m', min T (daysInMonth y' m'))"
    by (simp add: n k_def L_def)
  from days_from_civil_civil_from_days[OF cv]
  have "Day (nextStatementDateOf pat cur) = days_from_civil y' m' k"
    by (simp add: k_def L_def)
  also have "\<dots> = days_from_civil y' m' 1 + k - 1" by (rule days_from_civil_day)
  also have "\<dots> = days_from_civil y m 1 + daysInMonth y m + k - 1"
    using days_from_civil_nextMonth[OF m nm] by simp
  also have "\<dots> = Day cur + (daysInMonth y m - d) + k"
    using days_from_civil_day[of y m d] z by simp
  finally show "Day (nextStatementDateOf pat cur)
      = Day cur + (daysInMonth y m - d) + min T (daysInMonth y' m')"
    by (simp add: k_def L_def)
qed

lemma startOfDay_Day: "startOfDay t = Day t * msPerDay"
  by (simp add: startOfDay_def MakeDate_def)

lemma civil_of_Date:
  "civil_from_days (Day t) = (getFullYear t, getMonth t + 1, getDate t)"
  by (simp add: getFullYear_def getMonth_def getDate_def YearFromTime_def
      MonthFromTime_def DateFromTime_def)

lemma day_path_step:
  assumes p: "statementDayOfMonth pat = Some T" and T: "1 \<le> T"
  shows "startOfDay cur + msPerDay < startOfDay (nextStatementDateOf pat cur)
       \<longleftrightarrow> 2 \<le> T \<or> getDate cur < daysInMonth (getFullYear cur) (getMonth cur + 1)"
    and "2 \<le> T \<or> getDate (nextStatementDateOf pat cur)
           < daysInMonth (getFullYear (nextStatementDateOf pat cur))
               (getMonth (nextStatementDateOf pat cur) + 1)"
proof -
  define y m d where "y = getFullYear cur" and "m = getMonth cur + 1" and "d = getDate cur"
  have c: "civil_from_days (Day cur) = (y, m, d)" by (simp add: civil_of_Date y_def m_def d_def)
  obtain y' m' where nm: "nextMonth y m = (y', m')" by force
  note n = nextStatementDateOf_day[OF p T c nm]
  have dv: "d \<le> daysInMonth y m" by (rule civil_from_days_valid[OF c])
  have L: "28 \<le> daysInMonth y' m'" by (rule daysInMonth_bounds)
  have "startOfDay cur + msPerDay < startOfDay (nextStatementDateOf pat cur)
      \<longleftrightarrow> (Day cur + 1) * msPerDay < Day (nextStatementDateOf pat cur) * msPerDay"
    by (simp add: startOfDay_Day algebra_simps)
  also have "\<dots> \<longleftrightarrow> Day cur + 1 < Day (nextStatementDateOf pat cur)"
    using msPerDay_pos by simp
  also have "\<dots> \<longleftrightarrow> 2 \<le> T \<or> d < daysInMonth y m"
    unfolding n(1) using dv T L by (auto simp: min_def)
  finally show "startOfDay cur + msPerDay < startOfDay (nextStatementDateOf pat cur)
       \<longleftrightarrow> 2 \<le> T \<or> getDate cur < daysInMonth (getFullYear cur) (getMonth cur + 1)"
    by (simp add: y_def m_def d_def)
  have g: "getFullYear (nextStatementDateOf pat cur) = y'"
    "getMonth (nextStatementDateOf pat cur) + 1 = m'"
    "getDate (nextStatementDateOf pat cur) = min T (daysInMonth y' m')"
    using n(2) by (simp_all add: civil_of_Date)
  show "2 \<le> T \<or> getDate (nextStatementDateOf pat cur)
           < daysInMonth (getFullYear (nextStatementDateOf pat cur))
               (getMonth (nextStatementDateOf pat cur) + 1)"
    unfolding g using T L by (auto simp: min_def)
qed

lemma projectLoop_day_start_before_end:
  assumes p: "statementDayOfMonth pat = Some T" and T: "1 \<le> T"
  shows "2 \<le> T \<or> getDate cur < daysInMonth (getFullYear cur) (getMonth cur + 1) \<Longrightarrow>
    \<forall>pr \<in> set (projectLoop pat n i cur). cycleStartDate pr < cycleEndDate pr"
proof (induction "nat (n - i)" arbitrary: i cur)
  case 0
  then show ?case by (simp add: projectLoop_stop)
next
  case (Suc j)
  then have i: "i < n" "j = nat (n - (i + 1))" by linarith+
  from day_path_step(1)[OF p T, of cur] Suc.prems
  have "startOfDay cur + msPerDay < startOfDay (nextStatementDateOf pat cur)" by simp
  with Suc(1)[OF i(2) day_path_step(2)[OF p T, of cur]] show ?case
    by (simp add: projectLoop_step[OF i(1)])
qed

section \<open>The frequency table and the mode\<close>

lemma map_of_increment:
  "map_of (increment k fs) = (map_of fs)(k \<mapsto> Suc (freqOf fs k))"
  by (induction fs) (auto simp: freqOf_def fun_eq_iff)

lemma freqOf_increment: "freqOf (increment k fs) x = freqOf fs x + (if x = k then 1 else 0)"
  by (simp add: freqOf_def map_of_increment)

lemma keys_increment: "fst ` set (increment k fs) = insert k (fst ` set fs)"
  by (induction k fs rule: increment.induct) (simp_all add: insert_commute)

lemma distinct_increment:
  "distinct (map fst fs) \<Longrightarrow> distinct (map fst (increment k fs))"
proof (induction fs)
  case Nil
  then show ?case by simp
next
  case (Cons e fs)
  obtain k' c where e: "e = (k', c)" by (cases e)
  show ?case
  proof (cases "k' = k")
    case True
    with Cons.prems e show ?thesis by simp
  next
    case False
    have "k' \<notin> fst ` set (increment k fs)" using Cons.prems False e by (simp add: keys_increment)
    with Cons e False show ?thesis by simp
  qed
qed

lemma freqOf_fold: "freqOf (fold increment ns fs) x = freqOf fs x + count_list ns x"
  by (induction ns arbitrary: fs) (simp_all add: freqOf_increment)

lemma keys_fold: "fst ` set (fold increment ns fs) = set ns \<union> fst ` set fs"
  by (induction ns arbitrary: fs) (simp_all add: keys_increment)

lemma distinct_fold:
  "distinct (map fst fs) \<Longrightarrow> distinct (map fst (fold increment ns fs))"
  by (induction ns arbitrary: fs) (simp_all add: distinct_increment)

lemma frequency_table:
  defines "tab \<equiv> \<lambda>ns. fold increment ns []"
  shows "distinct (map fst (tab ns))"
    and "fst ` set (tab ns) = set ns"
    and "(k, c) \<in> set (tab ns) \<Longrightarrow> c = count_list ns k"
proof -
  show d: "distinct (map fst (tab ns))" unfolding tab_def by (rule distinct_fold) simp
  show "fst ` set (tab ns) = set ns" unfolding tab_def by (simp add: keys_fold)
  assume "(k, c) \<in> set (tab ns)"
  with d have "map_of (tab ns) k = Some c" by simp
  then have "freqOf (tab ns) k = c" by (simp add: freqOf_def)
  moreover have "freqOf (tab ns) k = freqOf [] k + count_list ns k"
    unfolding tab_def by (rule freqOf_fold)
  moreover have "freqOf [] k = 0" by (simp add: freqOf_def)
  ultimately show "c = count_list ns k" by simp
qed

lemma count_list_pos: "x \<in> set xs \<Longrightarrow> 0 < count_list xs x"
  using count_list_0_iff[of xs x] by (cases "count_list xs x = 0") simp_all

lemma Object_entries_indices:
  assumes "\<forall>e \<in> set fs. isArrayIndex (fst e)"
  shows "Object_entries fs = sort_key fst fs"
proof -
  have "filter (\<lambda>e. isArrayIndex (fst e)) fs = fs" using assms by (simp add: filter_id_conv)
  moreover have "filter (\<lambda>e. \<not> isArrayIndex (fst e)) fs = []" using assms by (simp add: filter_empty_conv)
  ultimately show ?thesis by (simp add: Object_entries_def)
qed

lemma fold_modeStep_first_max:
  assumes "\<forall>e \<in> set es. 0 < snd e" "es \<noteq> []"
  shows "\<exists>i < length es. fold modeStep es (0, None) = (snd (es ! i), Some (fst (es ! i)))
           \<and> (\<forall>j < length es. snd (es ! j) \<le> snd (es ! i))
           \<and> (\<forall>j < i. snd (es ! j) < snd (es ! i))"
  using assms
proof (induction es rule: rev_induct)
  case Nil
  then show ?case by simp
next
  case (snoc x xs)
  obtain k f where x: "x = (k, f)" by (cases x)
  from snoc.prems have f: "0 < f" by (simp add: x)
  show ?case
  proof (cases "xs = []")
    case True
    with f x show ?thesis by simp
  next
    case False
    with snoc obtain i where i: "i < length xs"
      "fold modeStep xs (0, None) = (snd (xs ! i), Some (fst (xs ! i)))"
      "\<forall>j < length xs. snd (xs ! j) \<le> snd (xs ! i)" "\<forall>j < i. snd (xs ! j) < snd (xs ! i)"
      by auto
    show ?thesis
    proof (cases "f > snd (xs ! i)")
      case True
      have "fold modeStep (xs @ [x]) (0, None) = (f, Some k)"
        using i(2) True by (simp add: x)
      moreover have "\<forall>j < length (xs @ [x]). snd ((xs @ [x]) ! j) \<le> f"
        using i(3) True by (auto simp: nth_append x less_Suc_eq)
      moreover have "\<forall>j < length xs. snd ((xs @ [x]) ! j) < f"
        using i(3) True by (auto simp: nth_append)
      ultimately show ?thesis
        by (intro exI[of _ "length xs"]) (simp add: x)
    next
      case False
      have "fold modeStep (xs @ [x]) (0, None) = (snd (xs ! i), Some (fst (xs ! i)))"
        using i(2) False by (simp add: x)
      moreover have "\<forall>j < length (xs @ [x]). snd ((xs @ [x]) ! j) \<le> snd (xs ! i)"
        using i(3) False by (auto simp: nth_append x less_Suc_eq)
      moreover have "\<forall>j < i. snd ((xs @ [x]) ! j) < snd (xs ! i)"
        using i(1,4) by (auto simp: nth_append)
      ultimately show ?thesis using i(1)
        by (intro exI[of _ i]) (simp add: nth_append)
    qed
  qed
qed

lemma calculateMode_indices:
  assumes "numbers \<noteq> []" "\<forall>x \<in> set numbers. isArrayIndex x"
  shows "\<exists>m. calculateMode numbers = Some m \<and> m \<in> set numbers
    \<and> (\<forall>x. count_list numbers x \<le> count_list numbers m)
    \<and> (\<forall>x. count_list numbers x = count_list numbers m \<longrightarrow> m \<le> x)"
proof -
  define tab where "tab = fold increment numbers []"
  define es where "es = sort_key fst tab"
  note ft = frequency_table(1,2)[of numbers, folded tab_def]
  note ft3 = frequency_table(3)[where ns = numbers, folded tab_def]
  have keys: "fst ` set es = set numbers" using ft(2) by (simp add: es_def)
  have cnt: "snd e = count_list numbers (fst e)" if "e \<in> set es" for e
    using ft3[of "fst e" "snd e"] that by (simp add: es_def)
  have sorted: "sorted (map fst es)" unfolding es_def by simp
  have "\<forall>e \<in> set tab. isArrayIndex (fst e)" using ft(2) assms(2) by auto
  then have oe: "Object_entries tab = es" unfolding es_def by (rule Object_entries_indices)
  have pos: "\<forall>e \<in> set es. 0 < snd e"
  proof
    fix e assume e: "e \<in> set es"
    then have "fst e \<in> set numbers" using keys by auto
    moreover have "snd e = count_list numbers (fst e)" using cnt[OF e] .
    ultimately show "0 < snd e" by (simp add: count_list_pos)
  qed
  have ne: "es \<noteq> []" using keys assms(1) by auto
  from fold_modeStep_first_max[OF pos ne] obtain i where i: "i < length es"
    "fold modeStep es (0, None) = (snd (es ! i), Some (fst (es ! i)))"
    "\<forall>j < length es. snd (es ! j) \<le> snd (es ! i)" "\<forall>j < i. snd (es ! j) < snd (es ! i)"
    by blast
  define m where "m = fst (es ! i)"
  have mode: "calculateMode numbers = Some m"
    using assms(1) i(2) by (simp add: calculateMode_def Let_def tab_def[symmetric] oe m_def)
  have mem: "es ! i \<in> set es" using i(1) by simp
  then have m_in: "m \<in> set numbers" using keys by (auto simp: m_def)
  have m_cnt: "snd (es ! i) = count_list numbers m"
    using cnt[OF mem] by (simp add: m_def)
  have idx: "\<exists>j < length es. es ! j = (x, count_list numbers x)" if "x \<in> set numbers" for x
  proof -
    from that keys have "x \<in> fst ` set es" by simp
    then obtain e where e: "e \<in> set es" "fst e = x" by (auto simp: image_iff)
    with cnt[OF e(1)] have "e = (x, count_list numbers x)" by (cases e) simp
    with e have "(x, count_list numbers x) \<in> set es" by simp
    then show ?thesis by (simp add: in_set_conv_nth)
  qed
  have le: "count_list numbers x \<le> count_list numbers m" for x
  proof (cases "x \<in> set numbers")
    case True
    from idx[OF True] obtain j where "j < length es" "es ! j = (x, count_list numbers x)" by blast
    with i(3) m_cnt show ?thesis by (metis snd_conv)
  next
    case False
    then show ?thesis by (simp add: count_list_0_iff)
  qed
  have least: "m \<le> x" if eq: "count_list numbers x = count_list numbers m" for x
  proof -
    have "0 < count_list numbers m" using m_in by (rule count_list_pos)
    with eq have "count_list numbers x \<noteq> 0" by simp
    then have "x \<in> set numbers" by (simp add: count_list_0_iff)
    from idx[OF this] obtain j where j: "j < length es" "es ! j = (x, count_list numbers x)"
      by blast
    have "\<not> j < i"
    proof
      assume "j < i"
      with i(4) have "snd (es ! j) < snd (es ! i)" by simp
      with j(2) eq m_cnt show False by simp
    qed
    then have "i \<le> j" by simp
    with sorted j(1) have "map fst es ! i \<le> map fst es ! j"
      by (intro sorted_nth_mono) simp_all
    with i(1) j show ?thesis by (simp add: m_def)
  qed
  from mode m_in le least show ?thesis by blast
qed

section \<open>The analysis\<close>

lemma length_cycleLengthsOf: "length (cycleLengthsOf cs) = length cs - 1"
  by (induction cs rule: cycleLengthsOf.induct) simp_all

lemma cycleLengthsOf_indices:
  assumes "sorted (map statementDate cs)" "\<forall>c \<in> set cs. validTime (statementDate c)"
  shows "\<forall>x \<in> set (cycleLengthsOf cs). isArrayIndex x"
  using assms
proof (induction cs rule: cycleLengthsOf.induct)
  case (1 a b cs)
  from "1.prems" have ab: "statementDate a \<le> statementDate b"
    and v: "\<bar>statementDate a\<bar> \<le> 8640000000000000" "\<bar>statementDate b\<bar> \<le> 8640000000000000"
    by (simp_all add: validTime_def)
  then have "0 \<le> statementDate b - statementDate a"
    "statementDate b - statementDate a \<le> 17280000000000000" by linarith+
  then have "0 \<le> (statementDate b - statementDate a) div 86400000"
    "(statementDate b - statementDate a) div 86400000 < 4294967295" by linarith+
  then have "isArrayIndex (differenceInDays (statementDate b) (statementDate a))"
    using ab by (simp add: isArrayIndex_def differenceInDays_def msPerDay_def)
  moreover have "\<forall>x \<in> set (cycleLengthsOf (b # cs)). isArrayIndex x"
    using "1.prems" by (intro "1.IH") simp_all
  ultimately show ?case by simp
qed simp_all

lemma analyze_confidence:
  "patternConfidence (pattern (analyzeBillingCyclePattern h)) =
     (if length h < 2 then 3 / 10
      else min 1
        (1 / 2
         + (if 6 \<le> length h then 2 / 10 else if 3 \<le> length h then 1 / 10 else 0)
         + (if isConsistentLength (sort_key statementDate h) then 15 / 100 else 0)
         + (if isConsistentDay (sort_key statementDate h) then 1 / 10 else 0)
         + (if isConsistentOffset (sort_key statementDate h) then 5 / 100 else 0)))"
  by (simp add: analyzeBillingCyclePattern_def Let_def min.commute)

lemma sum_squares_shift:
  fixes m c :: rat
  shows "sum_list (map (\<lambda>x. (of_int x - c) ^ 2) xs)
       = sum_list (map (\<lambda>x. (of_int x - m) ^ 2) xs)
         + 2 * (m - c) * (of_int (sum_list xs) - of_nat (length xs) * m)
         + of_nat (length xs) * (m - c) ^ 2"
  by (induction xs) (simp_all add: algebra_simps power2_eq_square)

lemma sum_list_bounded:
  fixes f :: "int \<Rightarrow> rat"
  assumes "\<forall>x \<in> set xs. f x \<le> b"
  shows "sum_list (map f xs) \<le> of_nat (length xs) * b"
  using assms by (induction xs) (auto simp: algebra_simps)

text \<open>
  Values that lie within 3 of each other have a variance of at most 2.25, below the
  threshold 4 of the consistency tests.
\<close>

lemma calculateVariance_window:
  assumes "\<forall>x \<in> set xs. \<forall>y \<in> set xs. x - y \<le> 3"
  shows "calculateVariance xs \<le> 9 / 4"
proof (cases "xs = []")
  case True
  then show ?thesis by (simp add: calculateVariance_def)
next
  case False
  define n :: rat where "n = of_nat (length xs)"
  have n: "0 < n" using False by (simp add: n_def)
  define mu :: rat where "mu = of_int (sum_list xs) / n"
  define lo hi where "lo = Min (set xs)" and "hi = Max (set xs)"
  define c :: rat where "c = (of_int lo + of_int hi) / 2"
  have "lo \<in> set xs" "hi \<in> set xs" using False by (simp_all add: lo_def hi_def)
  with assms have w: "hi - lo \<le> 3" by blast
  have sq: "(of_int x - c) ^ 2 \<le> 9 / 4" if "x \<in> set xs" for x
  proof -
    from that have "lo \<le> x" "x \<le> hi" by (simp_all add: lo_def hi_def)
    then have "(of_int lo :: rat) \<le> of_int x" "(of_int x :: rat) \<le> of_int hi" by simp_all
    moreover have "(of_int hi :: rat) - of_int lo \<le> 3" using w by (metis of_int_diff of_int_le_iff of_int_numeral)
    ultimately have "\<bar>of_int x - c\<bar> \<le> 3 / 2" by (simp add: c_def abs_le_iff field_simps)
    then have "(of_int x - c) ^ 2 \<le> (3 / 2) ^ 2" by (simp only: abs_le_square_iff[symmetric] abs_of_pos)
    then show ?thesis by (simp add: power2_eq_square)
  qed
  have z: "of_int (sum_list xs) - of_nat (length xs) * mu = 0"
    using n by (simp add: mu_def n_def)
  have "sum_list (map (\<lambda>x. (of_int x - mu) ^ 2) xs)
      = sum_list (map (\<lambda>x. (of_int x - c) ^ 2) xs) - n * (mu - c) ^ 2"
    using sum_squares_shift[of c xs mu] z by (simp add: n_def)
  also have "\<dots> \<le> sum_list (map (\<lambda>x. (of_int x - c) ^ 2) xs)"
    using n by simp
  also have "\<dots> \<le> n * (9 / 4)"
    unfolding n_def by (rule sum_list_bounded) (use sq in blast)
  finally have "sum_list (map (\<lambda>x. (of_int x - mu) ^ 2) xs) / n \<le> 9 / 4"
    using n by (simp add: field_simps)
  then show ?thesis using False by (simp add: calculateVariance_def Let_def mu_def n_def)
qed

section \<open>Properties of the detector\<close>

subsection \<open>Insufficient history\<close>

text \<open>
  Claim C3. For the empty history and for every history of a single cycle (every history
  of fewer than two cycles), \<^verbatim>\<open>analyzeBillingCyclePattern\<close> returns exactly the default
  pattern with cycle length 30, no statement day, due date offset 21 and confidence 0.3,
  the quality low, and the single insight that the history is insufficient.
\<close>

theorem analyze_insufficient_history:
  "length historicalCycles < 2 \<Longrightarrow>
   analyzeBillingCyclePattern historicalCycles =
     \<lparr> pattern = \<lparr> typicalCycleLength = 30, statementDayOfMonth = None,
                   dueDateOffset = 21, patternConfidence = 3 / 10 \<rparr>,
       quality = Low, insights = [InsufficientData] \<rparr>"
  by (simp add: analyzeBillingCyclePattern_def)

text \<open>The empty history and a history of one cycle, as instances.\<close>

theorem analyze_insufficient_history_witness:
  "length ([] :: HistoricalCycle list) < 2
   \<and> analyzeBillingCyclePattern [] =
     \<lparr> pattern = \<lparr> typicalCycleLength = 30, statementDayOfMonth = None,
                   dueDateOffset = 21, patternConfidence = 3 / 10 \<rparr>,
       quality = Low, insights = [InsufficientData] \<rparr>
   \<and> length [\<lparr> statementDate = mkDate 2024 1 15, dueDate = mkDate 2024 2 5,
                statementBalance = Some 120 \<rparr>] < 2
   \<and> analyzeBillingCyclePattern
       [\<lparr> statementDate = mkDate 2024 1 15, dueDate = mkDate 2024 2 5,
          statementBalance = Some 120 \<rparr>] =
     \<lparr> pattern = \<lparr> typicalCycleLength = 30, statementDayOfMonth = None,
                   dueDateOffset = 21, patternConfidence = 3 / 10 \<rparr>,
       quality = Low, insights = [InsufficientData] \<rparr>"
  using analyze_insufficient_history[of "[]"]
    analyze_insufficient_history[of "[\<lparr> statementDate = mkDate 2024 1 15,
          dueDate = mkDate 2024 2 5, statementBalance = Some 120 \<rparr>]"]
  by simp

subsection \<open>Confidence of a cycle\<close>

text \<open>
  Claim C6. For every data source, data age and pattern confidence,
  \<^verbatim>\<open>calculateCycleConfidence\<close> returns the pattern confidence times the provenance factor
  (plaid 1.0, inferred 0.85, manual 0.7), times \<open>max 0.5 (1 - (age - 48) / 720)\<close> exactly
  when the age exceeds 48 hours, clamped to the interval from 0 to 1. The numbers are
  exact rationals here.
\<close>

theorem calculateCycleConfidence_formula:
  "calculateCycleConfidence dataSource dataAgeHours patConfidence =
     max 0 (min 1
       (patConfidence
        * (case dataSource of Plaid \<Rightarrow> 1 | Inferred \<Rightarrow> 85 / 100 | Manual \<Rightarrow> 7 / 10)
        * (if dataAgeHours > 48 then max (1 / 2) (1 - (dataAgeHours - 48) / 720) else 1)))
   \<and> 0 \<le> calculateCycleConfidence dataSource dataAgeHours patConfidence
   \<and> calculateCycleConfidence dataSource dataAgeHours patConfidence \<le> 1"
  by (cases dataSource) (simp_all add: calculateCycleConfidence_def Let_def)

text \<open>The scenario of the specification: plaid data, 72 hours old, pattern confidence 0.9.\<close>

theorem calculateCycleConfidence_formula_witness:
  "calculateCycleConfidence Plaid 72 (9 / 10) = (9 / 10) * 1 * max (1 / 2) (1 - 24 / 720)
   \<and> calculateCycleConfidence Plaid 72 (9 / 10) = 87 / 100"
  using calculateCycleConfidence_formula[of Plaid 72 "9 / 10"] by simp

subsection \<open>A negative number of months\<close>

text \<open>
  Claim C8 says that a negative \<^verbatim>\<open>monthsAhead\<close> surfaces as a reported error.
  \<^verbatim>\<open>projectFutureCycles\<close> has no check of its arguments and no error path: the loop
  condition fails at once and the empty list of projections is returned.
\<close>

theorem projectFutureCycles_negative_counterexample:
  "projectFutureCycles
     \<lparr> statementDate = mkDate 2024 1 15, dueDate = mkDate 2024 2 5, statementBalance = None \<rparr>
     \<lparr> typicalCycleLength = 30, statementDayOfMonth = None, dueDateOffset = 21,
       patternConfidence = 9 / 10 \<rparr>
     (- 1) = []"
  by (simp add: projectFutureCycles_def projectLoop.simps)

text \<open>
  Claim C8, amended. For every negative \<^verbatim>\<open>monthsAhead\<close>, \<^verbatim>\<open>projectFutureCycles\<close> returns
  the empty list of projections, and reports no error.
\<close>

theorem projectFutureCycles_negative:
  "monthsAhead < 0 \<Longrightarrow> projectFutureCycles lastKnownCycle pat monthsAhead = []"
  by (simp add: projectFutureCycles_def projectLoop.simps)

theorem projectFutureCycles_negative_witness:
  "(- 3 :: int) < 0
   \<and> projectFutureCycles
     \<lparr> statementDate = mkDate 2024 1 31, dueDate = mkDate 2024 2 21, statementBalance = None \<rparr>
     \<lparr> typicalCycleLength = 31, statementDayOfMonth = Some 31, dueDateOffset = 21,
       patternConfidence = 1 \<rparr>
     (- 3) = []"
  using projectFutureCycles_negative[of "- 3"
      "\<lparr> statementDate = mkDate 2024 1 31, dueDate = mkDate 2024 2 21, statementBalance = None \<rparr>"
      "\<lparr> typicalCycleLength = 31, statementDayOfMonth = Some 31, dueDateOffset = 21,
       patternConfidence = 1 \<rparr>"]
  by simp

subsection \<open>Month-end adjustment\<close>

text \<open>
  Claim C7. For every date and every target day of at least 1, \<^verbatim>\<open>adjustForMonthEnd\<close>
  returns a date in the same year and month whose day of the month is the smaller of
  the target day and the last day of that month (\<open>daysInMonth\<close>, the table of month
  lengths with the Gregorian leap rule; \<^verbatim>\<open>getMonth\<close> counts from 0).
\<close>

theorem adjustForMonthEnd_min_day:
  assumes "1 \<le> targetDay"
  shows "getFullYear (adjustForMonthEnd date targetDay) = getFullYear date
    \<and> getMonth (adjustForMonthEnd date targetDay) = getMonth date
    \<and> getDate (adjustForMonthEnd date targetDay)
        = min targetDay (daysInMonth (getFullYear date) (getMonth date + 1))"
proof -
  define L where "L = daysInMonth (getFullYear date) (getMonth date + 1)"
  have L: "1 \<le> L" using daysInMonth_bounds(1)[of "getFullYear date" "getMonth date + 1"]
    by (simp add: L_def)
  show ?thesis
  proof (cases "targetDay > L")
    case True
    then have "adjustForMonthEnd date targetDay = setDate date L"
      by (simp add: adjustForMonthEnd_def getDate_endOfMonth L_def)
    then show ?thesis using setDate_in_month[of L date] L True by (simp add: L_def)
  next
    case False
    then have "adjustForMonthEnd date targetDay = setDate date targetDay"
      by (simp add: adjustForMonthEnd_def getDate_endOfMonth L_def)
    then show ?thesis using setDate_in_month[of targetDay date] assms False by (simp add: L_def)
  qed
qed

text \<open>
  Target day 31 in February 2023 (not a leap year), February 2024 (a leap year) and
  April 2024.
\<close>

theorem adjustForMonthEnd_min_day_witness:
  "(1 :: int) \<le> 31
   \<and> getFullYear (adjustForMonthEnd (mkDate 2023 2 10) 31) = 2023
   \<and> getMonth (adjustForMonthEnd (mkDate 2023 2 10) 31) = 1
   \<and> getDate (adjustForMonthEnd (mkDate 2023 2 10) 31) = 28
   \<and> getFullYear (adjustForMonthEnd (mkDate 2024 2 10) 31) = 2024
   \<and> getMonth (adjustForMonthEnd (mkDate 2024 2 10) 31) = 1
   \<and> getDate (adjustForMonthEnd (mkDate 2024 2 10) 31) = 29
   \<and> getFullYear (adjustForMonthEnd (mkDate 2024 4 10) 31) = 2024
   \<and> getMonth (adjustForMonthEnd (mkDate 2024 4 10) 31) = 3
   \<and> getDate (adjustForMonthEnd (mkDate 2024 4 10) 31) = 30"
proof -
  have d: "getFullYear (mkDate 2023 2 10) = 2023" "getMonth (mkDate 2023 2 10) = 1"
    "getFullYear (mkDate 2024 2 10) = 2024" "getMonth (mkDate 2024 2 10) = 1"
    "getFullYear (mkDate 2024 4 10) = 2024" "getMonth (mkDate 2024 4 10) = 3"
    by code_simp+
  have l: "daysInMonth 2023 2 = 28" "daysInMonth 2024 2 = 29" "daysInMonth 2024 4 = 30"
    by (simp_all add: daysInMonth_def isLeapYear_def)
  show ?thesis
    using adjustForMonthEnd_min_day[of 31 "mkDate 2023 2 10"]
      adjustForMonthEnd_min_day[of 31 "mkDate 2024 2 10"]
      adjustForMonthEnd_min_day[of 31 "mkDate 2024 4 10"]
    by (simp add: d l)
qed

subsection \<open>Assignment of a transaction to a cycle\<close>

lemma assign_None:
  "assignTransactionToCycle d cs = None \<longleftrightarrow>
     (\<forall>c \<in> set cs. \<not> (cycleStartDate c \<le> d \<and> d \<le> cycleEndDate c))"
  by (induction cs) auto

lemma assign_Some:
  "assignTransactionToCycle d cs = Some c \<longleftrightarrow>
     (\<exists>i < length cs. cs ! i = c \<and> cycleStartDate c \<le> d \<and> d \<le> cycleEndDate c
        \<and> (\<forall>j < i. \<not> (cycleStartDate (cs ! j) \<le> d \<and> d \<le> cycleEndDate (cs ! j))))"
proof (induction cs)
  case Nil
  then show ?case by simp
next
  case (Cons x xs)
  show ?case
  proof (cases "cycleStartDate x \<le> d \<and> d \<le> cycleEndDate x")
    case True
    have "(\<exists>i < length (x # xs). (x # xs) ! i = c \<and> cycleStartDate c \<le> d \<and> d \<le> cycleEndDate c
        \<and> (\<forall>j < i. \<not> (cycleStartDate ((x # xs) ! j) \<le> d \<and> d \<le> cycleEndDate ((x # xs) ! j))))
      \<longleftrightarrow> x = c"
    proof
      assume "\<exists>i < length (x # xs). (x # xs) ! i = c \<and> cycleStartDate c \<le> d \<and> d \<le> cycleEndDate c
        \<and> (\<forall>j < i. \<not> (cycleStartDate ((x # xs) ! j) \<le> d \<and> d \<le> cycleEndDate ((x # xs) ! j)))"
      then obtain i where i: "i < length (x # xs)" "(x # xs) ! i = c"
        "\<forall>j < i. \<not> (cycleStartDate ((x # xs) ! j) \<le> d \<and> d \<le> cycleEndDate ((x # xs) ! j))"
        by blast
      have "i = 0"
      proof (rule ccontr)
        assume "i \<noteq> 0"
        then have "0 < i" by simp
        with i(3) have "\<not> (cycleStartDate ((x # xs) ! 0) \<le> d \<and> d \<le> cycleEndDate ((x # xs) ! 0))"
          by blast
        with True show False by simp
      qed
      with i(2) show "x = c" by simp
    next
      assume "x = c"
      with True show "\<exists>i < length (x # xs). (x # xs) ! i = c \<and> cycleStartDate c \<le> d \<and> d \<le> cycleEndDate c
        \<and> (\<forall>j < i. \<not> (cycleStartDate ((x # xs) ! j) \<le> d \<and> d \<le> cycleEndDate ((x # xs) ! j)))"
        by (intro exI[of _ 0]) simp
    qed
    with True show ?thesis by simp
  next
    case False
    have "(\<exists>i < length (x # xs). (x # xs) ! i = c \<and> cycleStartDate c \<le> d \<and> d \<le> cycleEndDate c
        \<and> (\<forall>j < i. \<not> (cycleStartDate ((x # xs) ! j) \<le> d \<and> d \<le> cycleEndDate ((x # xs) ! j))))
      \<longleftrightarrow> (\<exists>i < length xs. xs ! i = c \<and> cycleStartDate c \<le> d \<and> d \<le> cycleEndDate c
        \<and> (\<forall>j < i. \<not> (cycleStartDate (xs ! j) \<le> d \<and> d \<le> cycleEndDate (xs ! j))))"
      (is "?L \<longleftrightarrow> ?R")
    proof
      assume ?L
      then obtain i where i: "i < length (x # xs)" "(x # xs) ! i = c"
        "cycleStartDate c \<le> d" "d \<le> cycleEndDate c"
        "\<forall>j < i. \<not> (cycleStartDate ((x # xs) ! j) \<le> d \<and> d \<le> cycleEndDate ((x # xs) ! j))"
        by blast
      from i(2,3,4) False have "i \<noteq> 0" by (cases i) auto
      then obtain k where k: "i = Suc k" by (cases i) auto
      have "\<forall>j < k. \<not> (cycleStartDate (xs ! j) \<le> d \<and> d \<le> cycleEndDate (xs ! j))"
      proof (intro allI impI)
        fix j assume "j < k"
        then have "Suc j < i" using k by simp
        with i(5) have "\<not> (cycleStartDate ((x # xs) ! Suc j) \<le> d \<and> d \<le> cycleEndDate ((x # xs) ! Suc j))"
          by blast
        then show "\<not> (cycleStartDate (xs ! j) \<le> d \<and> d \<le> cycleEndDate (xs ! j))" by simp
      qed
      with i k show ?R by (intro exI[of _ k]) simp
    next
      assume ?R
      then obtain k where k: "k < length xs" "xs ! k = c"
        "cycleStartDate c \<le> d" "d \<le> cycleEndDate c"
        "\<forall>j < k. \<not> (cycleStartDate (xs ! j) \<le> d \<and> d \<le> cycleEndDate (xs ! j))"
        by blast
      have "\<forall>j < Suc k. \<not> (cycleStartDate ((x # xs) ! j) \<le> d \<and> d \<le> cycleEndDate ((x # xs) ! j))"
      proof (intro allI impI)
        fix j assume j: "j < Suc k"
        show "\<not> (cycleStartDate ((x # xs) ! j) \<le> d \<and> d \<le> cycleEndDate ((x # xs) ! j))"
        proof (cases j)
          case 0
          with False show ?thesis by simp
        next
          case (Suc j')
          with j k(5) show ?thesis by simp
        qed
      qed
      with k show ?L by (intro exI[of _ "Suc k"]) simp
    qed
    then have eq: "?R \<longleftrightarrow> ?L" by simp
    from False have s: "assignTransactionToCycle d (x # xs) = assignTransactionToCycle d xs"
      by auto
    show ?thesis unfolding s Cons.IH by (rule eq)
  qed
qed

text \<open>
  Claim C9. \<^verbatim>\<open>assignTransactionToCycle\<close> returns the first cycle, in the order given,
  whose interval from \<^verbatim>\<open>cycleStartDate\<close> to \<^verbatim>\<open>cycleEndDate\<close>, both ends included, contains
  the date: it returns a cycle exactly when that cycle stands at some position, contains
  the date, and no cycle at an earlier position does; it returns none exactly when no
  cycle contains the date.
\<close>

theorem assignTransactionToCycle_first_match:
  "(assignTransactionToCycle transactionDate cycles = None \<longleftrightarrow>
      (\<forall>c \<in> set cycles. \<not> (cycleStartDate c \<le> transactionDate \<and> transactionDate \<le> cycleEndDate c)))
   \<and> (assignTransactionToCycle transactionDate cycles = Some cycle \<longleftrightarrow>
      (\<exists>i < length cycles. cycles ! i = cycle
         \<and> cycleStartDate cycle \<le> transactionDate \<and> transactionDate \<le> cycleEndDate cycle
         \<and> (\<forall>j < i. \<not> (cycleStartDate (cycles ! j) \<le> transactionDate
                        \<and> transactionDate \<le> cycleEndDate (cycles ! j)))))"
  using assign_None assign_Some by blast

text \<open>
  The cycle from 2024-02-01 to 2024-02-29: both end dates are assigned to it, 2024-03-01
  is not.
\<close>

theorem assignTransactionToCycle_first_match_witness:
  "assignTransactionToCycle (mkDate 2024 2 1)
     [\<lparr> cycleStartDate = mkDate 2024 2 1, cycleEndDate = mkDate 2024 2 29,
        paymentDueDate = mkDate 2024 3 21, isProjected = True, confidence = 9 / 10 \<rparr>]
   = Some \<lparr> cycleStartDate = mkDate 2024 2 1, cycleEndDate = mkDate 2024 2 29,
        paymentDueDate = mkDate 2024 3 21, isProjected = True, confidence = 9 / 10 \<rparr>
   \<and> assignTransactionToCycle (mkDate 2024 2 29)
     [\<lparr> cycleStartDate = mkDate 2024 2 1, cycleEndDate = mkDate 2024 2 29,
        paymentDueDate = mkDate 2024 3 21, isProjected = True, confidence = 9 / 10 \<rparr>]
   = Some \<lparr> cycleStartDate = mkDate 2024 2 1, cycleEndDate = mkDate 2024 2 29,
        paymentDueDate = mkDate 2024 3 21, isProjected = True, confidence = 9 / 10 \<rparr>
   \<and> assignTransactionToCycle (mkDate 2024 3 1)
     [\<lparr> cycleStartDate = mkDate 2024 2 1, cycleEndDate = mkDate 2024 2 29,
        paymentDueDate = mkDate 2024 3 21, isProjected = True, confidence = 9 / 10 \<rparr>]
   = None"
proof -
  let ?c = "\<lparr> cycleStartDate = mkDate 2024 2 1, cycleEndDate = mkDate 2024 2 29,
        paymentDueDate = mkDate 2024 3 21, isProjected = True, confidence = 9 / 10 \<rparr>"
  have d: "mkDate 2024 2 1 = 1706745600000" "mkDate 2024 2 29 = 1709164800000"
    "mkDate 2024 3 1 = 1709251200000" by (simp_all add: calendar_eval)
  have a: "assignTransactionToCycle (mkDate 2024 2 1) [?c] = Some ?c"
    using assignTransactionToCycle_first_match[of "mkDate 2024 2 1" "[?c]" ?c] by (simp add: d)
  have b: "assignTransactionToCycle (mkDate 2024 2 29) [?c] = Some ?c"
    using assignTransactionToCycle_first_match[of "mkDate 2024 2 29" "[?c]" ?c] by (simp add: d)
  have c: "assignTransactionToCycle (mkDate 2024 3 1) [?c] = None"
    using assignTransactionToCycle_first_match[of "mkDate 2024 3 1" "[?c]" ?c] by (simp add: d)
  from a b c show ?thesis by simp
qed

subsection \<open>Projection with a fixed cycle length\<close>

text \<open>
  Claim C1 says, among other things, that the confidence of the projection with index
  \<open>i\<close> is negative for every \<open>i \<ge> 20\<close> when the pattern confidence is positive. At
  \<open>i = 20\<close> the factor \<open>1 - 20 * 0.05\<close> is zero, and so is the confidence: here for
  the pattern of the specification's example, projected 21 months ahead.
\<close>

theorem projectFutureCycles_confidence_counterexample:
  "confidence
     (projectFutureCycles
        \<lparr> statementDate = mkDate 2024 1 15, dueDate = mkDate 2024 2 5, statementBalance = None \<rparr>
        \<lparr> typicalCycleLength = 30, statementDayOfMonth = None, dueDateOffset = 21,
          patternConfidence = 9 / 10 \<rparr> 21 ! 20) = 0"
  by code_simp

text \<open>
  Claim C1, amended. For every pattern without a statement day whose typical cycle length
  is a whole number \<open>L\<close> of days, and every \<^verbatim>\<open>monthsAhead\<close> of at least 0,
  \<^verbatim>\<open>projectFutureCycles\<close> returns \<^verbatim>\<open>monthsAhead\<close> projections; the statement date advances
  by exactly \<open>L\<close> days per iteration, so that projection \<open>i\<close> (from 0) ends at the start
  of the day \<open>(i + 1) * L\<close> days after the last known statement and starts at the start
  of the day \<open>i * L + 1\<close> days after it; its payment due date is its end date plus the
  due date offset in days; its confidence is the pattern confidence times
  \<open>1 - i * 0.05\<close>, with no floor at zero: for a positive pattern confidence it is
  negative exactly for \<open>i \<ge> 21\<close> (and zero at \<open>i = 20\<close>).
\<close>

theorem projectFutureCycles_fixed_length:
  assumes "statementDayOfMonth pat = None"
    and "typicalCycleLength pat = of_int L"
    and "0 \<le> monthsAhead"
  shows "length (projectFutureCycles lastKnownCycle pat monthsAhead) = nat monthsAhead
    \<and> (\<forall>i < nat monthsAhead.
          cycleStartDate (projectFutureCycles lastKnownCycle pat monthsAhead ! i)
            = startOfDay (statementDate lastKnownCycle + (int i * L + 1) * msPerDay)
        \<and> cycleEndDate (projectFutureCycles lastKnownCycle pat monthsAhead ! i)
            = startOfDay (statementDate lastKnownCycle + (int i + 1) * L * msPerDay)
        \<and> paymentDueDate (projectFutureCycles lastKnownCycle pat monthsAhead ! i)
            = cycleEndDate (projectFutureCycles lastKnownCycle pat monthsAhead ! i)
              + dueDateOffset pat * msPerDay
        \<and> confidence (projectFutureCycles lastKnownCycle pat monthsAhead ! i)
            = patternConfidence pat * (1 - of_nat i * (5 / 100))
        \<and> (0 < patternConfidence pat \<longrightarrow>
             (confidence (projectFutureCycles lastKnownCycle pat monthsAhead ! i) < 0
                \<longleftrightarrow> 21 \<le> i)))"
proof (intro conjI allI impI)
  show "length (projectFutureCycles lastKnownCycle pat monthsAhead) = nat monthsAhead"
    by (simp add: projectFutureCycles_def projectLoop_length)
next
  fix i assume i: "i < nat monthsAhead"
  let ?pr = "projectFutureCycles lastKnownCycle pat monthsAhead ! i"
  have nth: "?pr =
       \<lparr> cycleStartDate = startOfDay (statementDate lastKnownCycle) + (int i * L + 1) * msPerDay,
         cycleEndDate = startOfDay (statementDate lastKnownCycle) + (int i + 1) * L * msPerDay,
         paymentDueDate = startOfDay (statementDate lastKnownCycle) + (int i + 1) * L * msPerDay
            + dueDateOffset pat * msPerDay,
         isProjected = True,
         confidence = patternConfidence pat * (1 - of_int (0 + int i) * (5 / 100)) \<rparr>"
    unfolding projectFutureCycles_def
    using projectLoop_fixed_length_nth[OF assms(1,2), of i monthsAhead 0] i by simp
  show "cycleStartDate ?pr = startOfDay (statementDate lastKnownCycle + (int i * L + 1) * msPerDay)"
    unfolding nth by (simp only: startOfDay_add BillingCycleProjection.simps)
  show "cycleEndDate ?pr = startOfDay (statementDate lastKnownCycle + (int i + 1) * L * msPerDay)"
    unfolding nth by (simp only: startOfDay_add BillingCycleProjection.simps)
  show "paymentDueDate ?pr = cycleEndDate ?pr + dueDateOffset pat * msPerDay"
    unfolding nth by simp
  show c: "confidence ?pr = patternConfidence pat * (1 - of_nat i * (5 / 100))"
    unfolding nth by simp
  show "confidence ?pr < 0 \<longleftrightarrow> 21 \<le> i" if pos: "0 < patternConfidence pat"
  proof -
    have "confidence ?pr < 0 \<longleftrightarrow> 1 - (of_nat i :: rat) * (5 / 100) < 0"
      unfolding c using pos by (simp add: mult_less_0_iff)
    also have "\<dots> \<longleftrightarrow> (20 :: rat) < of_nat i" by (simp add: field_simps)
    also have "\<dots> \<longleftrightarrow> 20 < i" by (metis of_nat_less_iff of_nat_numeral)
    finally show ?thesis by linarith
  qed
qed

text \<open>
  The example of the specification: cycle length 30, due date offset 21, confidence 0.9,
  last statement on 2024-01-15, three months ahead.
\<close>

theorem projectFutureCycles_fixed_length_witness:
  "statementDayOfMonth \<lparr> typicalCycleLength = 30, statementDayOfMonth = None,
       dueDateOffset = 21, patternConfidence = 9 / 10 \<rparr> = None
   \<and> (0 :: int) \<le> 3
   \<and> map (\<lambda>p. (cycleEndDate p, paymentDueDate p, confidence p))
     (projectFutureCycles
        \<lparr> statementDate = mkDate 2024 1 15, dueDate = mkDate 2024 2 5, statementBalance = None \<rparr>
        \<lparr> typicalCycleLength = 30, statementDayOfMonth = None, dueDateOffset = 21,
          patternConfidence = 9 / 10 \<rparr> 3)
   = [(mkDate 2024 2 14, mkDate 2024 3 6, 9 / 10),
      (mkDate 2024 3 15, mkDate 2024 4 5, 855 / 1000),
      (mkDate 2024 4 14, mkDate 2024 5 5, 81 / 100)]"
proof -
  define c where "c = \<lparr> statementDate = mkDate 2024 1 15, dueDate = mkDate 2024 2 5,
             statementBalance = None \<rparr>"
  define p where "p = \<lparr> typicalCycleLength = 30, statementDayOfMonth = None,
             dueDateOffset = 21, patternConfidence = 9 / 10 \<rparr>"
  define r where "r = projectFutureCycles c p 3"
  have d: "mkDate 2024 1 15 = 1705276800000" "mkDate 2024 2 14 = 1707868800000"
    "mkDate 2024 3 15 = 1710460800000" "mkDate 2024 4 14 = 1713052800000"
    "mkDate 2024 3 6 = 1709683200000" "mkDate 2024 4 5 = 1712275200000"
    "mkDate 2024 5 5 = 1714867200000"
    by (simp_all add: calendar_eval)
  have s: "startOfDay t = (t div 86400000) * 86400000" for t
    by (simp add: startOfDay_def MakeDate_def Day_def msPerDay_def)
  have p1: "statementDayOfMonth p = None" and p2: "typicalCycleLength p = of_int 30"
    and p3: "dueDateOffset p = 21" and p4: "patternConfidence p = 9 / 10"
    and c1: "statementDate c = 1705276800000"
    by (simp_all add: p_def c_def d)
  note T = projectFutureCycles_fixed_length[OF p1 p2, of 3 c, folded r_def, unfolded p3 p4 c1]
  from T have len: "length r = 3" by simp
  from T have nth: "cycleEndDate (r ! i) = startOfDay (1705276800000 + (int i + 1) * 30 * msPerDay)
      \<and> paymentDueDate (r ! i) = cycleEndDate (r ! i) + 21 * msPerDay
      \<and> confidence (r ! i) = 9 / 10 * (1 - of_nat i * (5 / 100))" if "i < 3" for i
    using that by simp
  have i3: "(0 :: nat) < 3" "(1 :: nat) < 3" "(2 :: nat) < 3" by simp_all
  have e: "cycleEndDate (r ! 0) = 1707868800000" "paymentDueDate (r ! 0) = 1709683200000"
    "confidence (r ! 0) = 9 / 10"
    "cycleEndDate (r ! 1) = 1710460800000" "paymentDueDate (r ! 1) = 1712275200000"
    "confidence (r ! 1) = 855 / 1000"
    "cycleEndDate (r ! 2) = 1713052800000" "paymentDueDate (r ! 2) = 1714867200000"
    "confidence (r ! 2) = 81 / 100"
    using nth[OF i3(1)] nth[OF i3(2)] nth[OF i3(3)] by (simp_all add: s msPerDay_def)
  from len obtain x y z where r: "r = [x, y, z]"
    by (cases r; cases "tl r"; cases "tl (tl r)") auto
  from e have "map (\<lambda>p. (cycleEndDate p, paymentDueDate p, confidence p)) r
    = [(1707868800000, 1709683200000, 9 / 10), (1710460800000, 1712275200000, 855 / 1000),
       (1713052800000, 1714867200000, 81 / 100)]"
    unfolding r by simp
  then show ?thesis unfolding r_def c_def p_def d by simp
qed

subsection \<open>Order and contiguity of the projections\<close>

text \<open>
  Claim C5. For a pattern with typical cycle length at least 2 and due date offset at
  least 1, and \<^verbatim>\<open>monthsAhead\<close> at least 1, where on the path with a statement day of the
  month the target day yields a next statement after the cycle start, every projection
  satisfies \<open>cycleStartDate < cycleEndDate < paymentDueDate\<close>, and from the second
  projection on each \<open>cycleStartDate\<close> is exactly one day after the \<open>cycleEndDate\<close> of
  the projection before it.

  The condition on the target day is stated on the input: the target day is at least 1,
  and it is at least 2 or the last known statement is not on the last day of its month.
  By \<open>day_path_step\<close> this is, for a target day of at least 1, exactly the condition that
  the next statement lies after the cycle start, and it carries over from each
  iteration to the next.
\<close>

theorem projectFutureCycles_ordered_contiguous:
  assumes "2 \<le> typicalCycleLength pat"
    and "1 \<le> dueDateOffset pat"
    and "1 \<le> monthsAhead"
    and "\<And>day. statementDayOfMonth pat = Some day \<Longrightarrow>
           1 \<le> day \<and>
           (2 \<le> day \<or>
            getDate (statementDate lastKnownCycle)
              < daysInMonth (getFullYear (statementDate lastKnownCycle))
                  (getMonth (statementDate lastKnownCycle) + 1))"
  shows "length (projectFutureCycles lastKnownCycle pat monthsAhead) = nat monthsAhead
    \<and> (\<forall>pr \<in> set (projectFutureCycles lastKnownCycle pat monthsAhead).
          cycleStartDate pr < cycleEndDate pr \<and> cycleEndDate pr < paymentDueDate pr)
    \<and> (\<forall>i. 1 \<le> i \<and> i < nat monthsAhead \<longrightarrow>
          cycleStartDate (projectFutureCycles lastKnownCycle pat monthsAhead ! i)
            = cycleEndDate (projectFutureCycles lastKnownCycle pat monthsAhead ! (i - 1))
              + msPerDay)"
proof (intro conjI ballI allI impI)
  let ?r = "projectFutureCycles lastKnownCycle pat monthsAhead"
  show len: "length ?r = nat monthsAhead"
    by (simp add: projectFutureCycles_def projectLoop_length)
  {
    fix pr assume pr: "pr \<in> set ?r"
    show "cycleStartDate pr < cycleEndDate pr"
    proof (cases "statementDayOfMonth pat")
      case None
      from projectLoop_fixed_length_start_before_end[OF None assms(1)] pr
      show ?thesis by (simp add: projectFutureCycles_def)
    next
      case (Some day)
      from assms(4)[OF Some] have "1 \<le> day"
        and "2 \<le> day \<or> getDate (statementDate lastKnownCycle)
              < daysInMonth (getFullYear (statementDate lastKnownCycle))
                  (getMonth (statementDate lastKnownCycle) + 1)" by simp_all
      from projectLoop_day_start_before_end[OF Some this] pr
      show ?thesis by (simp add: projectFutureCycles_def)
    qed
    from projectLoop_due_after_end[OF assms(2)] pr
    show "cycleEndDate pr < paymentDueDate pr" by (simp add: projectFutureCycles_def)
  }
  fix i assume i: "1 \<le> i \<and> i < nat monthsAhead"
  then obtain k where k: "i = Suc k" by (cases i) auto
  with i len have "Suc k < length (projectLoop pat monthsAhead 0 (statementDate lastKnownCycle))"
    by (simp add: projectFutureCycles_def)
  from projectLoop_chain[OF this] k
  show "cycleStartDate (?r ! i) = cycleEndDate (?r ! (i - 1)) + msPerDay"
    by (simp add: projectFutureCycles_def)
qed

text \<open>
  Statement day 31 from 2024-01-31, four months ahead (the projections end on 2024-02-29,
  2024-03-31, 2024-04-30 and 2024-05-31), and statement day 1 from 2024-01-15.
\<close>

theorem projectFutureCycles_ordered_contiguous_witness:
  "(2 :: rat) \<le> 30 \<and> (1 :: int) \<le> 21 \<and> (1 :: int) \<le> 4 \<and> (2 :: int) \<le> 31
   \<and> length (projectFutureCycles
          \<lparr> statementDate = mkDate 2024 1 31, dueDate = mkDate 2024 2 21,
            statementBalance = None \<rparr>
          \<lparr> typicalCycleLength = 30, statementDayOfMonth = Some 31, dueDateOffset = 21,
            patternConfidence = 9 / 10 \<rparr> 4) = 4
   \<and> list_all (\<lambda>pr. cycleStartDate pr < cycleEndDate pr \<and> cycleEndDate pr < paymentDueDate pr)
        (projectFutureCycles
          \<lparr> statementDate = mkDate 2024 1 31, dueDate = mkDate 2024 2 21,
            statementBalance = None \<rparr>
          \<lparr> typicalCycleLength = 30, statementDayOfMonth = Some 31, dueDateOffset = 21,
            patternConfidence = 9 / 10 \<rparr> 4)
   \<and> map (\<lambda>i. cycleStartDate (projectFutureCycles
          \<lparr> statementDate = mkDate 2024 1 31, dueDate = mkDate 2024 2 21,
            statementBalance = None \<rparr>
          \<lparr> typicalCycleLength = 30, statementDayOfMonth = Some 31, dueDateOffset = 21,
            patternConfidence = 9 / 10 \<rparr> 4 ! i)) [1, 2, 3]
     = map (\<lambda>i. cycleEndDate (projectFutureCycles
          \<lparr> statementDate = mkDate 2024 1 31, dueDate = mkDate 2024 2 21,
            statementBalance = None \<rparr>
          \<lparr> typicalCycleLength = 30, statementDayOfMonth = Some 31, dueDateOffset = 21,
            patternConfidence = 9 / 10 \<rparr> 4 ! (i - 1)) + msPerDay) [1, 2, 3]
   \<and> getDate (mkDate 2024 1 15) < daysInMonth (getFullYear (mkDate 2024 1 15))
         (getMonth (mkDate 2024 1 15) + 1)
   \<and> list_all (\<lambda>pr. cycleStartDate pr < cycleEndDate pr \<and> cycleEndDate pr < paymentDueDate pr)
        (projectFutureCycles
          \<lparr> statementDate = mkDate 2024 1 15, dueDate = mkDate 2024 2 5,
            statementBalance = None \<rparr>
          \<lparr> typicalCycleLength = 30, statementDayOfMonth = Some 1, dueDateOffset = 21,
            patternConfidence = 9 / 10 \<rparr> 4)"
proof -
  define c where "c = \<lparr> statementDate = mkDate 2024 1 31, dueDate = mkDate 2024 2 21,
            statementBalance = None \<rparr>"
  define p where "p = \<lparr> typicalCycleLength = 30, statementDayOfMonth = Some 31,
            dueDateOffset = 21, patternConfidence = 9 / 10 \<rparr>"
  define r where "r = projectFutureCycles c p 4"
  define c' where "c' = \<lparr> statementDate = mkDate 2024 1 15, dueDate = mkDate 2024 2 5,
            statementBalance = None \<rparr>"
  define p' where "p' = \<lparr> typicalCycleLength = 30, statementDayOfMonth = Some 1,
            dueDateOffset = 21, patternConfidence = 9 / 10 \<rparr>"
  define r' where "r' = projectFutureCycles c' p' 4"
  have p1: "2 \<le> typicalCycleLength p" "1 \<le> dueDateOffset p" by (simp_all add: p_def)
  have p1': "2 \<le> typicalCycleLength p'" "1 \<le> dueDateOffset p'" by (simp_all add: p'_def)
  have m: "(1 :: int) \<le> 4" by simp
  have h: "1 \<le> day \<and> (2 \<le> day \<or> getDate (statementDate c)
      < daysInMonth (getFullYear (statementDate c)) (getMonth (statementDate c) + 1))"
    if "statementDayOfMonth p = Some day" for day
    using that by (simp add: p_def)
  have e: "getDate (mkDate 2024 1 15) < daysInMonth (getFullYear (mkDate 2024 1 15))
         (getMonth (mkDate 2024 1 15) + 1)" by code_simp
  have h': "1 \<le> day \<and> (2 \<le> day \<or> getDate (statementDate c')
      < daysInMonth (getFullYear (statementDate c')) (getMonth (statementDate c') + 1))"
    if "statementDayOfMonth p' = Some day" for day
    using that e by (simp add: p'_def c'_def)
  note T = projectFutureCycles_ordered_contiguous[OF p1 m h, folded r_def]
  note T' = projectFutureCycles_ordered_contiguous[OF p1' m h', folded r'_def]
  from T have len: "length r = 4" by simp
  from T have all: "list_all (\<lambda>pr. cycleStartDate pr < cycleEndDate pr
      \<and> cycleEndDate pr < paymentDueDate pr) r" by (simp add: list_all_iff)
  from T' have all': "list_all (\<lambda>pr. cycleStartDate pr < cycleEndDate pr
      \<and> cycleEndDate pr < paymentDueDate pr) r'" by (simp add: list_all_iff)
  from T have nth: "cycleStartDate (r ! i) = cycleEndDate (r ! (i - 1)) + msPerDay"
    if "1 \<le> i \<and> i < 4" for i using that by simp
  have i: "1 \<le> (1 :: nat) \<and> (1 :: nat) < 4" "1 \<le> (2 :: nat) \<and> (2 :: nat) < 4"
    "1 \<le> (3 :: nat) \<and> (3 :: nat) < 4" by simp_all
  from nth[OF i(1)] nth[OF i(2)] nth[OF i(3)]
  have "map (\<lambda>i. cycleStartDate (r ! i)) [1, 2, 3]
      = map (\<lambda>i. cycleEndDate (r ! (i - 1)) + msPerDay) [1, 2, 3]" by simp
  with len all all' e show ?thesis unfolding r_def c_def p_def r'_def c'_def p'_def by simp
qed

subsection \<open>The mode\<close>

text \<open>
  Claim C10 says that on every list of non-negative integers that is not empty, a tie
  goes to the smallest of the most frequent values, because the keys of the frequency
  table are listed in ascending order. \<^verbatim>\<open>Object.entries\<close> lists in ascending order only
  the keys that are array indices, the integers below \<open>2^32 - 1\<close>; larger keys follow in
  the order of their creation. Both numbers below occur once, and the larger one, which
  comes first in the input, is returned.
\<close>

theorem calculateMode_large_keys_counterexample:
  "calculateMode [4294967296, 4294967295] = Some 4294967296
   \<and> count_list [4294967296, 4294967295] (4294967295 :: int)
       = count_list [4294967296, 4294967295] (4294967296 :: int)
   \<and> (4294967295 :: int) < 4294967296"
  by code_simp

text \<open>
  Claim C10, amended. For every list of integers from 0 to \<open>2^32 - 2\<close> that is not empty,
  \<^verbatim>\<open>calculateMode\<close> returns a value (not \<^verbatim>\<open>null\<close>): an element of the list of maximal
  frequency, and the smallest of the elements of that frequency.
\<close>

theorem calculateMode_smallest_most_frequent:
  assumes "numbers \<noteq> []"
    and "\<forall>x \<in> set numbers. 0 \<le> x \<and> x < 4294967295"
  shows "\<exists>m. calculateMode numbers = Some m \<and> m \<in> set numbers
    \<and> (\<forall>x. count_list numbers x \<le> count_list numbers m)
    \<and> (\<forall>x. count_list numbers x = count_list numbers m \<longrightarrow> m \<le> x)"
  using assms by (intro calculateMode_indices) (simp_all add: isArrayIndex_def)

text \<open>A tie between 30 and 31, two occurrences each, goes to 30.\<close>

theorem calculateMode_smallest_most_frequent_witness:
  "[31, 30, 31, 30, 28 :: int] \<noteq> []
   \<and> list_all (\<lambda>x. 0 \<le> x \<and> x < 4294967295) [31, 30, 31, 30, 28 :: int]
   \<and> calculateMode [31, 30, 31, 30, 28] = Some 30"
proof -
  let ?ns = "[31, 30, 31, 30, 28 :: int]"
  have h: "\<forall>x \<in> set ?ns. 0 \<le> x \<and> x < 4294967295" by simp
  have ne: "?ns \<noteq> []" by simp
  from calculateMode_smallest_most_frequent[OF ne h] obtain m where
    m: "calculateMode ?ns = Some m" "m \<in> set ?ns"
    "\<forall>x. count_list ?ns x \<le> count_list ?ns m"
    "\<forall>x. count_list ?ns x = count_list ?ns m \<longrightarrow> m \<le> x"
    by blast
  from m(2) have "m = 31 \<or> m = 30 \<or> m = 28" by auto
  moreover from m(3) have "count_list ?ns 30 \<le> count_list ?ns m" by blast
  ultimately have "m = 31 \<or> m = 30" by auto
  moreover from m(4) have "count_list ?ns 30 = count_list ?ns m \<longrightarrow> m \<le> 30" by blast
  ultimately have "m = 30" by auto
  with m(1) show ?thesis by simp
qed

subsection \<open>The typical cycle length\<close>

text \<open>
  Claim C2 says that the typical cycle length is the mode of the day differences, and
  their median when all differences are distinct. \<^verbatim>\<open>calculateMode\<close> returns \<^verbatim>\<open>null\<close> only
  on the empty list; on distinct values it returns the smallest one, so the median is
  not taken: statements on 2024-01-01, 2024-01-31 and 2024-03-02 lie 30 and 31 days
  apart, the median is 30.5, the typical cycle length is 30.
\<close>

theorem typicalCycleLength_mode_counterexample:
  "dayDifferences
     [\<lparr> statementDate = mkDate 2024 1 1, dueDate = mkDate 2024 1 22, statementBalance = None \<rparr>,
      \<lparr> statementDate = mkDate 2024 1 31, dueDate = mkDate 2024 2 21, statementBalance = None \<rparr>,
      \<lparr> statementDate = mkDate 2024 3 2, dueDate = mkDate 2024 3 23, statementBalance = None \<rparr>]
     = [30, 31]
   \<and> calculateMedian [30, 31] = 61 / 2
   \<and> typicalCycleLength (pattern (analyzeBillingCyclePattern
     [\<lparr> statementDate = mkDate 2024 1 1, dueDate = mkDate 2024 1 22, statementBalance = None \<rparr>,
      \<lparr> statementDate = mkDate 2024 1 31, dueDate = mkDate 2024 2 21, statementBalance = None \<rparr>,
      \<lparr> statementDate = mkDate 2024 3 2, dueDate = mkDate 2024 3 23, statementBalance = None \<rparr>]))
     = 30"
  by code_simp

text \<open>
  Claim C2, amended. For every history of at least two cycles with valid statement dates,
  let \<open>m\<close> be the value that \<^verbatim>\<open>calculateMode\<close> returns for the day differences between
  consecutive statement dates after sorting: a most frequent difference, and the
  smallest of the most frequent ones (with all differences distinct: the smallest
  difference). Then \<^verbatim>\<open>typicalCycleLength\<close> is \<open>m\<close> when \<open>m\<close> is not zero, and the median
  of the differences when \<open>m\<close> is zero. The median is taken only for a mode of zero,
  never because the differences are distinct.
\<close>

theorem typicalCycleLength_mode:
  assumes "2 \<le> length historicalCycles"
    and "\<forall>c \<in> set historicalCycles. validTime (statementDate c)"
  shows "\<exists>m. calculateMode (dayDifferences historicalCycles) = Some m
    \<and> m \<in> set (dayDifferences historicalCycles)
    \<and> (\<forall>x. count_list (dayDifferences historicalCycles) x
             \<le> count_list (dayDifferences historicalCycles) m)
    \<and> (\<forall>x. count_list (dayDifferences historicalCycles) x
             = count_list (dayDifferences historicalCycles) m \<longrightarrow> m \<le> x)
    \<and> typicalCycleLength (pattern (analyzeBillingCyclePattern historicalCycles))
        = (if m = 0 then calculateMedian (dayDifferences historicalCycles) else of_int m)"
proof -
  define s where "s = sort_key statementDate historicalCycles"
  define ls where "ls = dayDifferences historicalCycles"
  have ls: "ls = cycleLengthsOf s" by (simp add: ls_def s_def dayDifferences_def)
  have "length ls = length historicalCycles - 1"
    by (simp add: ls s_def length_cycleLengthsOf)
  with assms(1) have ne: "ls \<noteq> []" by auto
  have "sorted (map statementDate s)" by (simp add: s_def)
  moreover have "\<forall>c \<in> set s. validTime (statementDate c)" using assms(2) by (simp add: s_def)
  ultimately have idx: "\<forall>x \<in> set ls. isArrayIndex x"
    unfolding ls by (rule cycleLengthsOf_indices)
  from calculateMode_indices[OF ne idx] obtain m where
    m: "calculateMode ls = Some m" "m \<in> set ls"
    "\<forall>x. count_list ls x \<le> count_list ls m"
    "\<forall>x. count_list ls x = count_list ls m \<longrightarrow> m \<le> x" by blast
  have "typicalCycleLength (pattern (analyzeBillingCyclePattern historicalCycles)) = modeOrMedian ls"
    using assms(1) by (simp add: analyzeBillingCyclePattern_def Let_def ls s_def)
  with m(1) have "typicalCycleLength (pattern (analyzeBillingCyclePattern historicalCycles))
      = (if m = 0 then calculateMedian ls else of_int m)"
    by (simp add: modeOrMedian_def)
  with m show ?thesis unfolding ls_def by blast
qed

text \<open>
  Differences 31, 29, 31, 29: the typical cycle length is 29. Differences 0, 30 (two
  statements on the same day): the mode is 0 and the typical cycle length is the median 15.
\<close>

theorem typicalCycleLength_mode_witness:
  "2 \<le> length
     [\<lparr> statementDate = mkDate 2024 1 15, dueDate = mkDate 2024 2 5, statementBalance = None \<rparr>,
      \<lparr> statementDate = mkDate 2024 2 15, dueDate = mkDate 2024 3 7, statementBalance = None \<rparr>,
      \<lparr> statementDate = mkDate 2024 3 15, dueDate = mkDate 2024 4 5, statementBalance = None \<rparr>,
      \<lparr> statementDate = mkDate 2024 4 15, dueDate = mkDate 2024 5 6, statementBalance = None \<rparr>,
      \<lparr> statementDate = mkDate 2024 5 14, dueDate = mkDate 2024 6 4, statementBalance = None \<rparr>]
   \<and> list_all (\<lambda>c. validTime (statementDate c))
     [\<lparr> statementDate = mkDate 2024 1 15, dueDate = mkDate 2024 2 5, statementBalance = None \<rparr>,
      \<lparr> statementDate = mkDate 2024 2 15, dueDate = mkDate 2024 3 7, statementBalance = None \<rparr>,
      \<lparr> statementDate = mkDate 2024 3 15, dueDate = mkDate 2024 4 5, statementBalance = None \<rparr>,
      \<lparr> statementDate = mkDate 2024 4 15, dueDate = mkDate 2024 5 6, statementBalance = None \<rparr>,
      \<lparr> statementDate = mkDate 2024 5 14, dueDate = mkDate 2024 6 4, statementBalance = None \<rparr>]
   \<and> dayDifferences
     [\<lparr> statementDate = mkDate 2024 1 15, dueDate = mkDate 2024 2 5, statementBalance = None \<rparr>,
      \<lparr> statementDate = mkDate 2024 2 15, dueDate = mkDate 2024 3 7, statementBalance = None \<rparr>,
      \<lparr> statementDate = mkDate 2024 3 15, dueDate = mkDate 2024 4 5, statementBalance = None \<rparr>,
      \<lparr> statementDate = mkDate 2024 4 15, dueDate = mkDate 2024 5 6, statementBalance = None \<rparr>,
      \<lparr> statementDate = mkDate 2024 5 14, dueDate = mkDate 2024 6 4, statementBalance = None \<rparr>]
     = [31, 29, 31, 29]
   \<and> typicalCycleLength (pattern (analyzeBillingCyclePattern
     [\<lparr> statementDate = mkDate 2024 1 15, dueDate = mkDate 2024 2 5, statementBalance = None \<rparr>,
      \<lparr> statementDate = mkDate 2024 2 15, dueDate = mkDate 2024 3 7, statementBalance = None \<rparr>,
      \<lparr> statementDate = mkDate 2024 3 15, dueDate = mkDate 2024 4 5, statementBalance = None \<rparr>,
      \<lparr> statementDate = mkDate 2024 4 15, dueDate = mkDate 2024 5 6, statementBalance = None \<rparr>,
      \<lparr> statementDate = mkDate 2024 5 14, dueDate = mkDate 2024 6 4, statementBalance = None \<rparr>]))
     = 29
   \<and> list_all (\<lambda>c. validTime (statementDate c))
     [\<lparr> statementDate = mkDate 2024 1 1, dueDate = mkDate 2024 1 22, statementBalance = None \<rparr>,
      \<lparr> statementDate = mkDate 2024 1 1, dueDate = mkDate 2024 1 22, statementBalance = None \<rparr>,
      \<lparr> statementDate = mkDate 2024 1 31, dueDate = mkDate 2024 2 21, statementBalance = None \<rparr>]
   \<and> dayDifferences
     [\<lparr> statementDate = mkDate 2024 1 1, dueDate = mkDate 2024 1 22, statementBalance = None \<rparr>,
      \<lparr> statementDate = mkDate 2024 1 1, dueDate = mkDate 2024 1 22, statementBalance = None \<rparr>,
      \<lparr> statementDate = mkDate 2024 1 31, dueDate = mkDate 2024 2 21, statementBalance = None \<rparr>]
     = [0, 30]
   \<and> typicalCycleLength (pattern (analyzeBillingCyclePattern
     [\<lparr> statementDate = mkDate 2024 1 1, dueDate = mkDate 2024 1 22, statementBalance = None \<rparr>,
      \<lparr> statementDate = mkDate 2024 1 1, dueDate = mkDate 2024 1 22, statementBalance = None \<rparr>,
      \<lparr> statementDate = mkDate 2024 1 31, dueDate = mkDate 2024 2 21, statementBalance = None \<rparr>]))
     = 15"
proof -
  define h where "h =
     [\<lparr> statementDate = mkDate 2024 1 15, dueDate = mkDate 2024 2 5, statementBalance = None \<rparr>,
      \<lparr> statementDate = mkDate 2024 2 15, dueDate = mkDate 2024 3 7, statementBalance = None \<rparr>,
      \<lparr> statementDate = mkDate 2024 3 15, dueDate = mkDate 2024 4 5, statementBalance = None \<rparr>,
      \<lparr> statementDate = mkDate 2024 4 15, dueDate = mkDate 2024 5 6, statementBalance = None \<rparr>,
      \<lparr> statementDate = mkDate 2024 5 14, dueDate = mkDate 2024 6 4, statementBalance = None \<rparr>]"
  define g where "g =
     [\<lparr> statementDate = mkDate 2024 1 1, dueDate = mkDate 2024 1 22, statementBalance = None \<rparr>,
      \<lparr> statementDate = mkDate 2024 1 1, dueDate = mkDate 2024 1 22, statementBalance = None \<rparr>,
      \<lparr> statementDate = mkDate 2024 1 31, dueDate = mkDate 2024 2 21, statementBalance = None \<rparr>]"
  have len: "2 \<le> length h" by (simp add: h_def)
  have v: "list_all (\<lambda>c. validTime (statementDate c)) h" unfolding h_def by code_simp
  then have v': "\<forall>c \<in> set h. validTime (statementDate c)" by (simp add: list_all_iff)
  have d: "dayDifferences h = [31, 29, 31, 29]" unfolding h_def by code_simp
  from typicalCycleLength_mode[OF len v'] obtain m where
    m: "m \<in> set (dayDifferences h)"
    "\<forall>x. count_list (dayDifferences h) x = count_list (dayDifferences h) m \<longrightarrow> m \<le> x"
    "typicalCycleLength (pattern (analyzeBillingCyclePattern h))
       = (if m = 0 then calculateMedian (dayDifferences h) else of_int m)"
    by blast
  from m(1) have "m = 31 \<or> m = 29" by (auto simp: d)
  moreover from m(2) have "count_list (dayDifferences h) 29 = count_list (dayDifferences h) m
    \<longrightarrow> m \<le> 29" by blast
  ultimately have "m = 29" by (auto simp: d)
  with m(3) have th: "typicalCycleLength (pattern (analyzeBillingCyclePattern h)) = 29" by simp
  have leng: "2 \<le> length g" by (simp add: g_def)
  have vg: "list_all (\<lambda>c. validTime (statementDate c)) g" unfolding g_def by code_simp
  then have vg': "\<forall>c \<in> set g. validTime (statementDate c)" by (simp add: list_all_iff)
  have dg: "dayDifferences g = [0, 30]" unfolding g_def by code_simp
  have med: "calculateMedian [0, 30] = 15" by code_simp
  from typicalCycleLength_mode[OF leng vg'] obtain k where
    k: "k \<in> set (dayDifferences g)"
    "\<forall>x. count_list (dayDifferences g) x = count_list (dayDifferences g) k \<longrightarrow> k \<le> x"
    "typicalCycleLength (pattern (analyzeBillingCyclePattern g))
       = (if k = 0 then calculateMedian (dayDifferences g) else of_int k)"
    by blast
  from k(1) have "k = 0 \<or> k = 30" by (auto simp: dg)
  moreover from k(2) have "count_list (dayDifferences g) 0 = count_list (dayDifferences g) k
    \<longrightarrow> k \<le> 0" by blast
  ultimately have "k = 0" by (auto simp: dg)
  with k(3) have tg: "typicalCycleLength (pattern (analyzeBillingCyclePattern g)) = 15"
    by (simp add: dg med)
  from len v d th vg dg tg show ?thesis unfolding h_def g_def by simp
qed

subsection \<open>Monotonicity of the confidence\<close>

text \<open>
  Claim C4 says that a history never has a lower confidence than a sub-history drawn from
  the same pattern. The seven statements below are exactly 30 days apart, each due 21
  days later. The first six fall on days 28 to 31 of their months and pass the
  statement-day test; the seventh falls on day 27 and the test fails, and the confidence
  drops from 1 to 0.9.
\<close>

theorem confidence_monotone_counterexample:
  "take 6
     (map (\<lambda>(s, d). \<lparr> statementDate = s, dueDate = d, statementBalance = None \<rparr>)
       [(mkDate 2023 3 31, mkDate 2023 4 21), (mkDate 2023 4 30, mkDate 2023 5 21),
        (mkDate 2023 5 30, mkDate 2023 6 20), (mkDate 2023 6 29, mkDate 2023 7 20),
        (mkDate 2023 7 29, mkDate 2023 8 19), (mkDate 2023 8 28, mkDate 2023 9 18),
        (mkDate 2023 9 27, mkDate 2023 10 18)])
   = map (\<lambda>(s, d). \<lparr> statementDate = s, dueDate = d, statementBalance = None \<rparr>)
       [(mkDate 2023 3 31, mkDate 2023 4 21), (mkDate 2023 4 30, mkDate 2023 5 21),
        (mkDate 2023 5 30, mkDate 2023 6 20), (mkDate 2023 6 29, mkDate 2023 7 20),
        (mkDate 2023 7 29, mkDate 2023 8 19), (mkDate 2023 8 28, mkDate 2023 9 18)]
   \<and> dayDifferences
     (map (\<lambda>(s, d). \<lparr> statementDate = s, dueDate = d, statementBalance = None \<rparr>)
       [(mkDate 2023 3 31, mkDate 2023 4 21), (mkDate 2023 4 30, mkDate 2023 5 21),
        (mkDate 2023 5 30, mkDate 2023 6 20), (mkDate 2023 6 29, mkDate 2023 7 20),
        (mkDate 2023 7 29, mkDate 2023 8 19), (mkDate 2023 8 28, mkDate 2023 9 18),
        (mkDate 2023 9 27, mkDate 2023 10 18)])
     = [30, 30, 30, 30, 30, 30]
   \<and> patternConfidence (pattern (analyzeBillingCyclePattern
     (map (\<lambda>(s, d). \<lparr> statementDate = s, dueDate = d, statementBalance = None \<rparr>)
       [(mkDate 2023 3 31, mkDate 2023 4 21), (mkDate 2023 4 30, mkDate 2023 5 21),
        (mkDate 2023 5 30, mkDate 2023 6 20), (mkDate 2023 6 29, mkDate 2023 7 20),
        (mkDate 2023 7 29, mkDate 2023 8 19), (mkDate 2023 8 28, mkDate 2023 9 18)])))
     = 1
   \<and> patternConfidence (pattern (analyzeBillingCyclePattern
     (map (\<lambda>(s, d). \<lparr> statementDate = s, dueDate = d, statementBalance = None \<rparr>)
       [(mkDate 2023 3 31, mkDate 2023 4 21), (mkDate 2023 4 30, mkDate 2023 5 21),
        (mkDate 2023 5 30, mkDate 2023 6 20), (mkDate 2023 6 29, mkDate 2023 7 20),
        (mkDate 2023 7 29, mkDate 2023 8 19), (mkDate 2023 8 28, mkDate 2023 9 18),
        (mkDate 2023 9 27, mkDate 2023 10 18)])))
     = 9 / 10
   \<and> (9 / 10 :: rat) < 1"
  by code_simp

text \<open>
  Claim C4, amended. Let \<open>A\<close> and \<open>B\<close> be histories where \<open>B\<close> has at least as many cycles
  as \<open>A\<close> (as when \<open>A\<close> is a sub-history of \<open>B\<close>) and \<open>B\<close> follows one pattern: its day
  differences between consecutive statements lie within 3 days of each other, and so do
  its due date offsets. Then both variances of \<open>B\<close> are at most 2.25, well below the
  threshold 4 of the two variance tests, and if \<open>B\<close> passes the statement-day test
  whenever \<open>A\<close> does, the confidence of the pattern of \<open>B\<close> is at least that of the
  pattern of \<open>A\<close>. The statement-day test compares integers only.
\<close>

theorem confidence_monotone:
  assumes "length A \<le> length B"
    and "\<forall>x \<in> set (dayDifferences B). \<forall>y \<in> set (dayDifferences B). x - y \<le> 3"
    and "\<forall>x \<in> set (dueDateOffsetsOf B). \<forall>y \<in> set (dueDateOffsetsOf B). x - y \<le> 3"
    and "isConsistentDay (sort_key statementDate A) \<Longrightarrow>
         isConsistentDay (sort_key statementDate B)"
  shows "calculateVariance (dayDifferences B) \<le> 9 / 4
    \<and> calculateVariance (dueDateOffsetsOf (sort_key statementDate B)) \<le> 9 / 4
    \<and> patternConfidence (pattern (analyzeBillingCyclePattern A))
       \<le> patternConfidence (pattern (analyzeBillingCyclePattern B))"
proof (intro conjI)
  show vl: "calculateVariance (dayDifferences B) \<le> 9 / 4"
    by (rule calculateVariance_window[OF assms(2)])
  have "set (dueDateOffsetsOf (sort_key statementDate B)) = set (dueDateOffsetsOf B)"
    by (simp add: dueDateOffsetsOf_def)
  with assms(3) have "\<forall>x \<in> set (dueDateOffsetsOf (sort_key statementDate B)).
      \<forall>y \<in> set (dueDateOffsetsOf (sort_key statementDate B)). x - y \<le> 3" by simp
  then show vo: "calculateVariance (dueDateOffsetsOf (sort_key statementDate B)) \<le> 9 / 4"
    by (rule calculateVariance_window)
  have lb: "isConsistentLength (sort_key statementDate B)"
    using vl by (simp add: isConsistentLength_def dayDifferences_def)
  have ob: "isConsistentOffset (sort_key statementDate B)"
    using vo by (simp add: isConsistentOffset_def)
  show "patternConfidence (pattern (analyzeBillingCyclePattern A))
       \<le> patternConfidence (pattern (analyzeBillingCyclePattern B))"
  proof (cases "length A < 2")
    case True
    then have "patternConfidence (pattern (analyzeBillingCyclePattern A)) = 3 / 10"
      by (simp add: analyze_confidence)
    moreover have "3 / 10 \<le> patternConfidence (pattern (analyzeBillingCyclePattern B))"
      by (simp add: analyze_confidence)
    ultimately show ?thesis by simp
  next
    case False
    with assms(1) have B: "\<not> length B < 2" by simp
    define qa :: rat where
      "qa = (if 6 \<le> length A then 2 / 10 else if 3 \<le> length A then 1 / 10 else 0)"
    define qb :: rat where
      "qb = (if 6 \<le> length B then 2 / 10 else if 3 \<le> length B then 1 / 10 else 0)"
    define la :: rat where
      "la = (if isConsistentLength (sort_key statementDate A) then 15 / 100 else 0)"
    define da :: rat where
      "da = (if isConsistentDay (sort_key statementDate A) then 1 / 10 else 0)"
    define db :: rat where
      "db = (if isConsistentDay (sort_key statementDate B) then 1 / 10 else 0)"
    define oa :: rat where
      "oa = (if isConsistentOffset (sort_key statementDate A) then 5 / 100 else 0)"
    have "qa \<le> qb" using assms(1) by (simp add: qa_def qb_def)
    moreover have "la \<le> 15 / 100" by (simp add: la_def)
    moreover have "da \<le> db" using assms(4) by (auto simp: da_def db_def)
    moreover have "oa \<le> 5 / 100" by (simp add: oa_def)
    ultimately have "1 / 2 + qa + la + da + oa \<le> 1 / 2 + qb + 15 / 100 + db + 5 / 100"
      by linarith
    then have "min 1 (1 / 2 + qa + la + da + oa) \<le> min 1 (1 / 2 + qb + 15 / 100 + db + 5 / 100)"
      by (simp add: min_le_iff_disj)
    then show ?thesis
      using False B lb ob
      unfolding analyze_confidence qa_def qb_def la_def da_def db_def oa_def
      by simp
  qed
qed

text \<open>Statements on the 15th of three and of six consecutive months.\<close>

theorem confidence_monotone_witness:
  "length (map (\<lambda>(s, d). \<lparr> statementDate = s, dueDate = d, statementBalance = None \<rparr>)
       [(mkDate 2024 1 15, mkDate 2024 2 5), (mkDate 2024 2 15, mkDate 2024 3 7),
        (mkDate 2024 3 15, mkDate 2024 4 5)])
    \<le> length (map (\<lambda>(s, d). \<lparr> statementDate = s, dueDate = d, statementBalance = None \<rparr>)
       [(mkDate 2024 1 15, mkDate 2024 2 5), (mkDate 2024 2 15, mkDate 2024 3 7),
        (mkDate 2024 3 15, mkDate 2024 4 5), (mkDate 2024 4 15, mkDate 2024 5 6),
        (mkDate 2024 5 15, mkDate 2024 6 5), (mkDate 2024 6 15, mkDate 2024 7 6)])
   \<and> dayDifferences
      (map (\<lambda>(s, d). \<lparr> statementDate = s, dueDate = d, statementBalance = None \<rparr>)
       [(mkDate 2024 1 15, mkDate 2024 2 5), (mkDate 2024 2 15, mkDate 2024 3 7),
        (mkDate 2024 3 15, mkDate 2024 4 5), (mkDate 2024 4 15, mkDate 2024 5 6),
        (mkDate 2024 5 15, mkDate 2024 6 5), (mkDate 2024 6 15, mkDate 2024 7 6)])
     = [31, 29, 31, 30, 31]
   \<and> dueDateOffsetsOf
      (map (\<lambda>(s, d). \<lparr> statementDate = s, dueDate = d, statementBalance = None \<rparr>)
       [(mkDate 2024 1 15, mkDate 2024 2 5), (mkDate 2024 2 15, mkDate 2024 3 7),
        (mkDate 2024 3 15, mkDate 2024 4 5), (mkDate 2024 4 15, mkDate 2024 5 6),
        (mkDate 2024 5 15, mkDate 2024 6 5), (mkDate 2024 6 15, mkDate 2024 7 6)])
     = [21, 21, 21, 21, 21, 21]
   \<and> isConsistentDay (sort_key statementDate
      (map (\<lambda>(s, d). \<lparr> statementDate = s, dueDate = d, statementBalance = None \<rparr>)
       [(mkDate 2024 1 15, mkDate 2024 2 5), (mkDate 2024 2 15, mkDate 2024 3 7),
        (mkDate 2024 3 15, mkDate 2024 4 5), (mkDate 2024 4 15, mkDate 2024 5 6),
        (mkDate 2024 5 15, mkDate 2024 6 5), (mkDate 2024 6 15, mkDate 2024 7 6)]))
   \<and> patternConfidence (pattern (analyzeBillingCyclePattern
      (map (\<lambda>(s, d). \<lparr> statementDate = s, dueDate = d, statementBalance = None \<rparr>)
       [(mkDate 2024 1 15, mkDate 2024 2 5), (mkDate 2024 2 15, mkDate 2024 3 7),
        (mkDate 2024 3 15, mkDate 2024 4 5)])))
    \<le> patternConfidence (pattern (analyzeBillingCyclePattern
      (map (\<lambda>(s, d). \<lparr> statementDate = s, dueDate = d, statementBalance = None \<rparr>)
       [(mkDate 2024 1 15, mkDate 2024 2 5), (mkDate 2024 2 15, mkDate 2024 3 7),
        (mkDate 2024 3 15, mkDate 2024 4 5), (mkDate 2024 4 15, mkDate 2024 5 6),
        (mkDate 2024 5 15, mkDate 2024 6 5), (mkDate 2024 6 15, mkDate 2024 7 6)])))"
proof -
  define A where "A = map (\<lambda>(s, d). \<lparr> statementDate = s, dueDate = d, statementBalance = None \<rparr>)
       [(mkDate 2024 1 15, mkDate 2024 2 5), (mkDate 2024 2 15, mkDate 2024 3 7),
        (mkDate 2024 3 15, mkDate 2024 4 5)]"
  define B where "B = map (\<lambda>(s, d). \<lparr> statementDate = s, dueDate = d, statementBalance = None \<rparr>)
       [(mkDate 2024 1 15, mkDate 2024 2 5), (mkDate 2024 2 15, mkDate 2024 3 7),
        (mkDate 2024 3 15, mkDate 2024 4 5), (mkDate 2024 4 15, mkDate 2024 5 6),
        (mkDate 2024 5 15, mkDate 2024 6 5), (mkDate 2024 6 15, mkDate 2024 7 6)]"
  have len: "length A \<le> length B" by (simp add: A_def B_def)
  have dd: "dayDifferences B = [31, 29, 31, 30, 31]" unfolding B_def by code_simp
  have od: "dueDateOffsetsOf B = [21, 21, 21, 21, 21, 21]" unfolding B_def by code_simp
  have d: "isConsistentDay (sort_key statementDate B)" unfolding B_def by code_simp
  have w1: "\<forall>x \<in> set (dayDifferences B). \<forall>y \<in> set (dayDifferences B). x - y \<le> 3"
    unfolding dd by simp
  have w2: "\<forall>x \<in> set (dueDateOffsetsOf B). \<forall>y \<in> set (dueDateOffsetsOf B). x - y \<le> 3"
    unfolding od by simp
  from confidence_monotone[OF len w1 w2 d]
  have "patternConfidence (pattern (analyzeBillingCyclePattern A))
      \<le> patternConfidence (pattern (analyzeBillingCyclePattern B))" by simp
  with len dd od d show ?thesis unfolding A_def B_def by blast
qed

end
